theory Spec2Isabelle
  imports Main "HOL-Library.Word" "HOL-Library.Product_Lexorder"
begin

unbundle bit_operations_syntax

section \<open>derenotes: frame-indexed access to a video stream (libs/image/video.pyx)\<close>

text \<open>
  The module drives the FFmpeg shared libraries. The libraries are not part of the
  repository: every library call is modelled by the value it returns, and the model
  covers what \<^verbatim>\<open>video.pyx\<close> does with these values. Python integers are \<open>int\<close>;
  where the source converts to a C \<^verbatim>\<open>int\<close> the conversion is written out.
\<close>

subsection \<open>Constants of the FFmpeg headers\<close>

text \<open>
  \<^verbatim>\<open>AVERROR_EOF\<close>, \<^verbatim>\<open>AVERROR(EAGAIN)\<close> and \<^verbatim>\<open>AV_PKT_FLAG_KEY\<close> are imported from the
  library headers (\<^verbatim>\<open>ffmpeg.libavutil\<close>, \<^verbatim>\<open>ffmpeg.libavcodec\<close>); the values are those of
  the headers on Linux. The module depends only on their being distinct and nonzero.
\<close>

definition AVERROR_EOF :: int where
  "AVERROR_EOF = - 541478725"

definition AVERROR_EAGAIN :: int where
  "AVERROR_EAGAIN = - 11"

definition AV_PKT_FLAG_KEY :: int where
  "AV_PKT_FLAG_KEY = 1"

subsection \<open>Pixel formats and the format-selection callback\<close>

text \<open>
  \<^verbatim>\<open>AVPixelFormat\<close> is an enumeration of the library; \<^verbatim>\<open>AV_PIX_FMT_NONE\<close> terminates the
  candidate array handed to the callback. Other formats are identified by their number.
\<close>

datatype AVPixelFormat = AV_PIX_FMT_NONE | PixFmt nat

text \<open>
  \<^verbatim>\<open>_get_hw_format(ctx, fmts)\<close>. The first argument is
  \<^verbatim>\<open>hw_pix_fmt = av_get_pix_fmt(av_hwdevice_get_type_name(hw_device_ctx.type))\<close>, the pixel
  format named like the active device type, the second is \<^verbatim>\<open>ctx.sw_pix_fmt\<close>, the third
  the array \<^verbatim>\<open>fmts\<close> read from index 0 upwards (\<^verbatim>\<open>itertools.count()\<close>). The source reads
  the array without a bound; a read behind the last element of the list is \<open>None\<close>.
\<close>

fun get_hw_format :: "AVPixelFormat \<Rightarrow> AVPixelFormat \<Rightarrow> AVPixelFormat list \<Rightarrow> AVPixelFormat option" where
  "get_hw_format hw_pix_fmt sw_pix_fmt [] = None"
| "get_hw_format hw_pix_fmt sw_pix_fmt (fmt # fmts) =
     (if fmt \<in> set [AV_PIX_FMT_NONE, hw_pix_fmt] then Some fmt
      else if fmt \<in> set [sw_pix_fmt] then Some fmt
      else get_hw_format hw_pix_fmt sw_pix_fmt fmts)"

text \<open>
  The selection as the specification words it: the hardware format whenever it is among
  the candidates, the software format otherwise.
\<close>

definition spec_hw_format :: "AVPixelFormat \<Rightarrow> AVPixelFormat \<Rightarrow> AVPixelFormat list \<Rightarrow> AVPixelFormat" where
  "spec_hw_format hw_pix_fmt sw_pix_fmt candidates =
     (if hw_pix_fmt \<in> set candidates then hw_pix_fmt else sw_pix_fmt)"

subsection \<open>Errors\<close>

text \<open>
  Every error of the module is a \<^verbatim>\<open>VIDEOError\<close>; the constructors name the raising
  statement. \<open>OverflowError\<close>, \<open>IndexError\<close> and \<open>ValueError\<close> are the exceptions of the
  Cython conversion of a Python integer to a C \<^verbatim>\<open>int\<close> and of numpy.
\<close>

datatype error =
    IndexOutOfRange         \<comment> \<open>\<^verbatim>\<open>VIDEOError("... Index out of bounds")\<close>\<close>
  | SeekError               \<comment> \<open>\<^verbatim>\<open>VIDEOError("... av_seek_frame")\<close>\<close>
  | DecodeError             \<comment> \<open>\<^verbatim>\<open>VIDEOError("... avcodec_receive_frame")\<close>\<close>
  | HardwareTransferError   \<comment> \<open>\<^verbatim>\<open>VIDEOError("... hwframe transfer data")\<close>\<close>
  | PlaneBufferError        \<comment> \<open>\<^verbatim>\<open>VIDEOError("... av_frame_get_plane_buffer")\<close>\<close>
  | OverflowError
  | IndexError
  | ValueError

subsection \<open>Data\<close>

type_synonym byte = "8 word"

text \<open>The fields of \<^verbatim>\<open>AVPacket\<close> and \<^verbatim>\<open>AVFrame\<close> that the module reads.\<close>

record AVPacket =
  pkt_pts :: int
  pkt_dts :: int
  pkt_flags :: int
  pkt_stream_index :: int

text \<open>
  \<open>frame_linesize\<close> is \<^verbatim>\<open>linesize[0]\<close>; \<open>frame_plane\<close> is the memory of
  \<^verbatim>\<open>av_frame_get_plane_buffer(frame, 0)\<close>, \<open>None\<close> for \<^verbatim>\<open>NULL\<close>.
\<close>

record AVFrame =
  frame_pts :: int
  frame_width :: int
  frame_height :: int
  frame_linesize :: int
  frame_plane :: "byte list option"

text \<open>The packed struct \<^verbatim>\<open>timetable\<close> of \<^verbatim>\<open>libvideo.pxd\<close>.\<close>

record timetable_entry =
  pts :: int
  dts :: int
  flags :: int

text \<open>
  The libraries, seen from the module: for each library function the results its next
  calls return, in call order. A call takes the first result of its list. When a list
  is used up the call answers \<^verbatim>\<open>AVERROR_EOF\<close> (the file and the decoder have nothing
  more to give), so every loop of the module over library calls ends.
\<close>

record ffmpeg =
  read_results :: "(int \<times> AVPacket) list"        \<comment> \<open>\<^verbatim>\<open>av_read_frame\<close>: return value, packet\<close>
  seek_results :: "int list"                      \<comment> \<open>\<^verbatim>\<open>av_seek_frame\<close>\<close>
  send_results :: "int list"                      \<comment> \<open>\<^verbatim>\<open>avcodec_send_packet\<close>\<close>
  receive_results :: "(int \<times> AVFrame) list"      \<comment> \<open>\<^verbatim>\<open>avcodec_receive_frame\<close>: return value, frame\<close>
  transfer_results :: "(int \<times> AVFrame) list"     \<comment> \<open>\<^verbatim>\<open>av_hwframe_transfer_data\<close>: return value, destination\<close>
  scale_results :: "AVFrame list"                 \<comment> \<open>\<^verbatim>\<open>sws_scale_frame\<close>: destination\<close>

text \<open>
  The attributes of \<^verbatim>\<open>cdef class Stream\<close>. \<open>ffmpeg\<close> stands for \<^verbatim>\<open>format_context\<close> and
  \<^verbatim>\<open>decodec_context\<close> (read position of the container, state of the decoder),
  \<open>nb_frames\<close> for \<^verbatim>\<open>stream.nb_frames\<close>, \<open>width\<close> and \<open>height\<close> for
  \<^verbatim>\<open>decodec_context.width\<close> and \<^verbatim>\<open>decodec_context.height\<close>.
\<close>

record Stream =
  ffmpeg :: ffmpeg
  best_stream_index :: int
  nb_frames :: int
  width :: int
  height :: int
  enabled_hardware :: bool
  timetable :: "timetable_entry list"

subsection \<open>C integers\<close>

text \<open>
  \<^verbatim>\<open>cdef int frame_index = index\<close>: Cython converts the Python integer and raises
  \<^verbatim>\<open>OverflowError\<close> when it does not fit a C \<^verbatim>\<open>int\<close>.
\<close>

definition py_to_c_int :: "int \<Rightarrow> error + int" where
  "py_to_c_int i = (if - (2 ^ 31) \<le> i \<and> i < 2 ^ 31 then Inr i else Inl OverflowError)"

text \<open>The cast \<^verbatim>\<open><int>x\<close> of an \<^verbatim>\<open>int64_t\<close>: the low 32 bits, read as two's complement.\<close>

definition c_int_cast :: "int \<Rightarrow> int" where
  "c_int_cast x = (x + 2 ^ 31) mod 2 ^ 32 - 2 ^ 31"

subsection \<open>Library calls\<close>

definition AV_NOPTS_VALUE :: int where
  "AV_NOPTS_VALUE = - (2 ^ 63)"

text \<open>\<^verbatim>\<open>av_packet_alloc\<close> and \<^verbatim>\<open>av_frame_alloc\<close>: a packet and a frame without data.\<close>

definition av_packet_alloc :: AVPacket where
  "av_packet_alloc = \<lparr>pkt_pts = AV_NOPTS_VALUE, pkt_dts = AV_NOPTS_VALUE, pkt_flags = 0, pkt_stream_index = 0\<rparr>"

definition av_frame_alloc :: AVFrame where
  "av_frame_alloc = \<lparr>frame_pts = AV_NOPTS_VALUE, frame_width = 0, frame_height = 0,
     frame_linesize = 0, frame_plane = None\<rparr>"

definition av_read_frame :: "ffmpeg \<Rightarrow> int \<times> AVPacket \<times> ffmpeg" where
  "av_read_frame L =
     (case read_results L of
        [] \<Rightarrow> (AVERROR_EOF, av_packet_alloc, L)
      | (res, packet) # rest \<Rightarrow> (res, packet, L\<lparr>read_results := rest\<rparr>))"

definition av_seek_frame :: "ffmpeg \<Rightarrow> int \<Rightarrow> int \<Rightarrow> int \<times> ffmpeg" where
  "av_seek_frame L stream_index timestamp =
     (case seek_results L of
        [] \<Rightarrow> (AVERROR_EOF, L)
      | res # rest \<Rightarrow> (res, L\<lparr>seek_results := rest\<rparr>))"

text \<open>The packet argument is \<open>None\<close> for \<^verbatim>\<open>NULL\<close>, which starts draining.\<close>

definition avcodec_send_packet :: "ffmpeg \<Rightarrow> AVPacket option \<Rightarrow> int \<times> ffmpeg" where
  "avcodec_send_packet L packet =
     (case send_results L of
        [] \<Rightarrow> (AVERROR_EOF, L)
      | res # rest \<Rightarrow> (res, L\<lparr>send_results := rest\<rparr>))"

definition avcodec_receive_frame :: "ffmpeg \<Rightarrow> int \<times> AVFrame \<times> ffmpeg" where
  "avcodec_receive_frame L =
     (case receive_results L of
        [] \<Rightarrow> (AVERROR_EOF, av_frame_alloc, L)
      | (res, frame) # rest \<Rightarrow> (res, frame, L\<lparr>receive_results := rest\<rparr>))"

text \<open>\<^verbatim>\<open>avcodec_flush_buffers\<close> returns nothing.\<close>

definition avcodec_flush_buffers :: "ffmpeg \<Rightarrow> ffmpeg" where
  "avcodec_flush_buffers L = L"

text \<open>The destination frame is left as it is when the library has no result to give.\<close>

definition av_hwframe_transfer_data :: "ffmpeg \<Rightarrow> AVFrame \<Rightarrow> AVFrame \<Rightarrow> int \<times> AVFrame \<times> ffmpeg" where
  "av_hwframe_transfer_data L dst src =
     (case transfer_results L of
        [] \<Rightarrow> (AVERROR_EOF, dst, L)
      | (res, frame) # rest \<Rightarrow> (res, frame, L\<lparr>transfer_results := rest\<rparr>))"

text \<open>\<^verbatim>\<open>av_frame_copy_props(dst, src)\<close> copies the properties, of which the model has the timestamp.\<close>

definition av_frame_copy_props :: "AVFrame \<Rightarrow> AVFrame \<Rightarrow> AVFrame" where
  "av_frame_copy_props dst src = dst\<lparr>frame_pts := frame_pts src\<rparr>"

text \<open>
  \<^verbatim>\<open>sws_scale_frame(ctx, dst, src)\<close> fills the picture of \<open>dst\<close> (size, line size, plane)
  and keeps its properties.
\<close>

definition sws_scale_frame :: "ffmpeg \<Rightarrow> AVFrame \<Rightarrow> AVFrame \<Rightarrow> AVFrame \<times> ffmpeg" where
  "sws_scale_frame L dst src =
     (case scale_results L of
        [] \<Rightarrow> (dst, L)
      | frame # rest \<Rightarrow> (frame\<lparr>frame_pts := frame_pts dst\<rparr>, L\<lparr>scale_results := rest\<rparr>))"

subsection \<open>Packets: \<^verbatim>\<open>_Packet.receive_frame\<close> and \<^verbatim>\<open>_Packet.decode\<close>\<close>

text \<open>
  \<open>receive_frame\<close> returns the frame (\<open>Some\<close>), Python's \<^verbatim>\<open>None\<close> (\<open>None\<close>) or raises.
  \<open>receive_loop\<close> is the \<^verbatim>\<open>while True\<close> loop of \<open>decode\<close> with the list \<^verbatim>\<open>frames\<close>
  collected so far; \<open>drain_loop\<close> is the \<^verbatim>\<open>while\<close> loop of \<^verbatim>\<open>Stream._drain_codec\<close>.
\<close>

definition receive_frame :: "ffmpeg \<Rightarrow> (error + AVFrame option) \<times> ffmpeg" where
  "receive_frame L =
     (case avcodec_receive_frame L of
        (res, frame, L') \<Rightarrow>
          if res = 0 then (Inr (Some frame), L')
          else if res \<in> set [AVERROR_EOF, AVERROR_EAGAIN] then (Inr None, L')
          else (Inl DecodeError, L'))"

function receive_loop :: "ffmpeg \<Rightarrow> AVFrame list \<Rightarrow> (error + AVFrame list) \<times> ffmpeg" where
  "receive_loop L frames =
     (case receive_frame L of
        (Inl e, L') \<Rightarrow> (Inl e, L')
      | (Inr (Some frame), L') \<Rightarrow> receive_loop L' (frames @ [frame])
      | (Inr None, L') \<Rightarrow> (Inr frames, L'))"
  by pat_completeness auto
termination
proof (relation "measure (\<lambda>(L, frames). length (receive_results L))")
  show "wf (measure (\<lambda>(L, frames). length (receive_results L)))" by simp
next
  fix L :: ffmpeg and frames :: "AVFrame list" and x and L' and y and frame
  assume "(x, L') = receive_frame L" "x = Inr y" "y = Some frame"
  then have "length (receive_results L') < length (receive_results L)"
    by (auto simp: receive_frame_def avcodec_receive_frame_def AVERROR_EOF_def
        split: list.splits if_splits)
  then show "((L', frames @ [frame]), (L, frames)) \<in> measure (\<lambda>(L, frames). length (receive_results L))"
    by simp
qed

declare receive_loop.simps [simp del]

definition decode :: "ffmpeg \<Rightarrow> AVPacket \<Rightarrow> (error + AVFrame list) \<times> ffmpeg" where
  "decode L packet =
     (case avcodec_send_packet L (Some packet) of
        (res, L') \<Rightarrow> if res = 0 then receive_loop L' [] else (Inr [], L'))"

function drain_loop :: "ffmpeg \<Rightarrow> ffmpeg" where
  "drain_loop L =
     (case avcodec_receive_frame L of
        (res, frame, L') \<Rightarrow> if res \<noteq> AVERROR_EOF then drain_loop L' else L')"
  by pat_completeness auto
termination
proof (relation "measure (\<lambda>L. length (receive_results L))")
  show "wf (measure (\<lambda>L. length (receive_results L)))" by simp
next
  fix L :: ffmpeg and res and x and frame and L'
  assume "(res, x) = avcodec_receive_frame L" "(frame, L') = x" "res \<noteq> AVERROR_EOF"
  then have "length (receive_results L') < length (receive_results L)"
    by (auto simp: avcodec_receive_frame_def split: list.splits)
  then show "(L', L) \<in> measure (\<lambda>L. length (receive_results L))"
    by simp
qed

declare drain_loop.simps [simp del]

subsection \<open>\<^verbatim>\<open>Stream._drain_codec\<close>, \<^verbatim>\<open>Stream._seek_keyframe\<close>, \<^verbatim>\<open>Stream._iter_packet\<close>\<close>

definition drain_codec :: "ffmpeg \<Rightarrow> ffmpeg" where
  "drain_codec L =
     (case avcodec_send_packet L None of
        (res, L') \<Rightarrow> avcodec_flush_buffers (drain_loop L'))"

definition seek_keyframe :: "Stream \<Rightarrow> int \<Rightarrow> (error + unit) \<times> Stream" where
  "seek_keyframe st timestamp =
     (case av_seek_frame (ffmpeg st) (best_stream_index st) timestamp of
        (res, L') \<Rightarrow>
          if res < 0 then (Inl SeekError, st\<lparr>ffmpeg := L'\<rparr>)
          else (Inr (), st\<lparr>ffmpeg := drain_codec L'\<rparr>))"

text \<open>
  The generator \<^verbatim>\<open>_iter_packet\<close>, run up to its next \<^verbatim>\<open>yield\<close>: \<open>Some\<close> is the packet
  yielded, \<open>None\<close> the end of the generator, reached after \<^verbatim>\<open>_drain_codec\<close>.
\<close>

function iter_packet :: "int \<Rightarrow> ffmpeg \<Rightarrow> AVPacket option \<times> ffmpeg" where
  "iter_packet best L =
     (case av_read_frame L of
        (res, packet, L') \<Rightarrow>
          if res = 0 then
            (if pkt_stream_index packet = best then (Some packet, L')
             else iter_packet best L')
          else (None, drain_codec L'))"
  by pat_completeness auto
termination
proof (relation "measure (\<lambda>(best, L). length (read_results L))")
  show "wf (measure (\<lambda>(best, L). length (read_results L)))" by simp
next
  fix best :: int and L :: ffmpeg and res and x and packet and L'
  assume "(res, x) = av_read_frame L" "(packet, L') = x" "res = 0"
  then have "length (read_results L') < length (read_results L)"
    by (auto simp: av_read_frame_def AVERROR_EOF_def split: list.splits)
  then show "((best, L'), (best, L)) \<in> measure (\<lambda>(best, L). length (read_results L))"
    by simp
qed

declare iter_packet.simps [simp del]

text \<open>The loops over packets end: a packet yielded was read, and decoding reads nothing.\<close>

lemma iter_packet_reads:
  "iter_packet best L = (Some packet, L') \<Longrightarrow> length (read_results L') < length (read_results L)"
proof (induction best L rule: iter_packet.induct)
  case (1 best L)
  obtain res p L1 where r: "av_read_frame L = (res, p, L1)"
    by (cases "av_read_frame L") auto
  show ?case
  proof (cases "res = 0")
    case True
    then have shorter: "length (read_results L1) < length (read_results L)"
      using r by (auto simp: av_read_frame_def AVERROR_EOF_def split: list.splits)
    show ?thesis
    proof (cases "pkt_stream_index p = best")
      case True
      with \<open>res = 0\<close> r "1.prems" have "L' = L1"
        by (simp add: iter_packet.simps [of best L])
      with shorter show ?thesis by simp
    next
      case False
      with \<open>res = 0\<close> r "1.prems" have "iter_packet best L1 = (Some packet, L')"
        by (simp add: iter_packet.simps [of best L])
      with "1.IH" [OF r [symmetric] refl \<open>res = 0\<close> False]
      have "length (read_results L') < length (read_results L1)" by simp
      with shorter show ?thesis by simp
    qed
  next
    case False
    with r "1.prems" show ?thesis
      by (simp add: iter_packet.simps [of best L])
  qed
qed

lemma receive_loop_read_results:
  "read_results (snd (receive_loop L frames)) = read_results L"
proof (induction L frames rule: receive_loop.induct)
  case (1 L frames)
  obtain res f L1 where r: "avcodec_receive_frame L = (res, f, L1)"
    by (cases "avcodec_receive_frame L") auto
  then have same: "read_results L1 = read_results L"
    by (auto simp: avcodec_receive_frame_def split: list.splits)
  show ?case
  proof (cases "res = 0")
    case True
    with r have rf: "receive_frame L = (Inr (Some f), L1)"
      by (simp add: receive_frame_def)
    from "1.IH" [OF rf [symmetric] refl refl] rf same show ?thesis
      by (simp add: receive_loop.simps [of L frames])
  next
    case False
    with r same show ?thesis
      by (simp add: receive_loop.simps [of L frames] receive_frame_def)
  qed
qed

lemma decode_read_results:
  "read_results (snd (decode L packet)) = read_results L"
  by (auto simp: decode_def avcodec_send_packet_def receive_loop_read_results split: list.splits)

subsection \<open>\<^verbatim>\<open>Stream._iter_frame\<close> and the search loop of \<^verbatim>\<open>Stream.frame_buffer\<close>\<close>

text \<open>
  \<open>find_frame\<close> is the loop \<^verbatim>\<open>for frame in self._iter_frame()\<close> of \<^verbatim>\<open>frame_buffer\<close> up to
  the frame whose \<^verbatim>\<open>pts\<close> is the target: the frames of a packet are decoded together,
  then compared in order; \<open>None\<close> is the end of the generator without a match.
\<close>

function find_frame :: "int \<Rightarrow> int \<Rightarrow> ffmpeg \<Rightarrow> (error + AVFrame option) \<times> ffmpeg" where
  "find_frame best target L =
     (case iter_packet best L of
        (None, L') \<Rightarrow> (Inr None, L')
      | (Some packet, L') \<Rightarrow>
          (case decode L' packet of
             (Inl e, L'') \<Rightarrow> (Inl e, L'')
           | (Inr frames, L'') \<Rightarrow>
               (case find (\<lambda>frame. frame_pts frame = target) frames of
                  Some frame \<Rightarrow> (Inr (Some frame), L'')
                | None \<Rightarrow> find_frame best target L'')))"
  by pat_completeness auto
termination
proof (relation "measure (\<lambda>(best, target, L). length (read_results L))")
  show "wf (measure (\<lambda>(best, target, L). length (read_results L)))" by simp
next
  fix best target :: int and L :: ffmpeg and x L' packet y L'' frames
  assume a: "(x, L') = iter_packet best L" "x = Some packet" "(y, L'') = decode L' packet"
  from a(1,2) have "length (read_results L') < length (read_results L)"
    using iter_packet_reads [of best L packet L'] by simp
  moreover from a(3) have "read_results L'' = read_results L'"
    using decode_read_results [of L' packet] by (metis snd_conv)
  ultimately show "((best, target, L''), (best, target, L)) \<in> measure (\<lambda>(best, target, L). length (read_results L))"
    by simp
qed

declare find_frame.simps [simp del]

text \<open>The generator \<^verbatim>\<open>_iter_frame\<close> run to its end: all frames it yields.\<close>

function iter_frame :: "int \<Rightarrow> ffmpeg \<Rightarrow> (error + AVFrame list) \<times> ffmpeg" where
  "iter_frame best L =
     (case iter_packet best L of
        (None, L') \<Rightarrow> (Inr [], L')
      | (Some packet, L') \<Rightarrow>
          (case decode L' packet of
             (Inl e, L'') \<Rightarrow> (Inl e, L'')
           | (Inr frames, L'') \<Rightarrow>
               (case iter_frame best L'' of
                  (Inl e, L''') \<Rightarrow> (Inl e, L''')
                | (Inr rest_frames, L''') \<Rightarrow> (Inr (frames @ rest_frames), L'''))))"
  by pat_completeness auto
termination
proof (relation "measure (\<lambda>(best, L). length (read_results L))")
  show "wf (measure (\<lambda>(best, L). length (read_results L)))" by simp
next
  fix best :: int and L :: ffmpeg and x L' packet y L'' frames
  assume a: "(x, L') = iter_packet best L" "x = Some packet" "(y, L'') = decode L' packet"
  from a(1,2) have "length (read_results L') < length (read_results L)"
    using iter_packet_reads [of best L packet L'] by simp
  moreover from a(3) have "read_results L'' = read_results L'"
    using decode_read_results [of L' packet] by (metis snd_conv)
  ultimately show "((best, L''), (best, L)) \<in> measure (\<lambda>(best, L). length (read_results L))"
    by simp
qed

declare iter_frame.simps [simp del]

text \<open>The generator \<^verbatim>\<open>_iter_packet\<close> run to its end: all packets it yields.\<close>

function iter_packet_list :: "int \<Rightarrow> ffmpeg \<Rightarrow> AVPacket list \<times> ffmpeg" where
  "iter_packet_list best L =
     (case iter_packet best L of
        (None, L') \<Rightarrow> ([], L')
      | (Some packet, L') \<Rightarrow>
          (case iter_packet_list best L' of
             (packets, L'') \<Rightarrow> (packet # packets, L'')))"
  by pat_completeness auto
termination
proof (relation "measure (\<lambda>(best, L). length (read_results L))")
  show "wf (measure (\<lambda>(best, L). length (read_results L)))" by simp
next
  fix best :: int and L :: ffmpeg and x L' packet
  assume "(x, L') = iter_packet best L" "x = Some packet"
  then have "length (read_results L') < length (read_results L)"
    using iter_packet_reads [of best L packet L'] by simp
  then show "((best, L'), (best, L)) \<in> measure (\<lambda>(best, L). length (read_results L))"
    by simp
qed

declare iter_packet_list.simps [simp del]

subsection \<open>\<^verbatim>\<open>Stream.__init__\<close>: the timetable\<close>

text \<open>
  \<open>fill_timetable\<close> is the loop \<^verbatim>\<open>for i, packet in enumerate(self._iter_packet())\<close>.
  numpy raises \<^verbatim>\<open>IndexError\<close> for \<^verbatim>\<open>timetable[i]\<close> behind the end of the array. The
  packets are not sent to the decoder. The counter \<^verbatim>\<open>i\<close> is a C \<^verbatim>\<open>int\<close> in the source and
  a natural number here: the two agree for arrays of fewer than \<open>2 ^ 31\<close> entries.
\<close>

function fill_timetable :: "int \<Rightarrow> ffmpeg \<Rightarrow> nat \<Rightarrow> timetable_entry list \<Rightarrow> (error + timetable_entry list) \<times> ffmpeg" where
  "fill_timetable best L i table =
     (case iter_packet best L of
        (None, L') \<Rightarrow> (Inr table, L')
      | (Some packet, L') \<Rightarrow>
          if i < length table then
            fill_timetable best L' (Suc i)
              (table[i := \<lparr>pts = pkt_pts packet, dts = pkt_dts packet,
                           flags = (if pkt_flags packet AND AV_PKT_FLAG_KEY \<noteq> 0 then 1 else 0)\<rparr>])
          else (Inl IndexError, L'))"
  by pat_completeness auto
termination
proof (relation "measure (\<lambda>(best, L, i, table). length (read_results L))")
  show "wf (measure (\<lambda>(best, L, i, table). length (read_results L)))" by simp
next
  fix best :: int and L :: ffmpeg and i :: nat and table :: "timetable_entry list" and x L' packet
  assume "(x, L') = iter_packet best L" "x = Some packet"
  then have "length (read_results L') < length (read_results L)"
    using iter_packet_reads [of best L packet L'] by simp
  then show "((best, L', Suc i, table[i := \<lparr>pts = pkt_pts packet, dts = pkt_dts packet,
      flags = (if pkt_flags packet AND AV_PKT_FLAG_KEY \<noteq> 0 then 1 else 0)\<rparr>]), (best, L, i, table))
      \<in> measure (\<lambda>(best, L, i, table). length (read_results L))"
    by simp
qed

declare fill_timetable.simps [simp del]

text \<open>
  \<^verbatim>\<open>np.ndarray(n, dtype)\<close> does not initialise its memory: \<open>uninitialised k\<close> is what
  cell \<open>k\<close> holds. A negative length raises \<^verbatim>\<open>ValueError\<close>.
  \<^verbatim>\<open>np.sort(timetable, order="pts")\<close> compares \<^verbatim>\<open>pts\<close> and then the other fields in the
  order of the dtype.
\<close>

definition np_sort_pts :: "timetable_entry list \<Rightarrow> timetable_entry list" where
  "np_sort_pts table = sort_key (\<lambda>entry. (pts entry, dts entry, flags entry)) table"

definition Stream_init :: "Stream \<Rightarrow> (nat \<Rightarrow> timetable_entry) \<Rightarrow> (error + unit) \<times> Stream" where
  "Stream_init st uninitialised =
     (if nb_frames st < 0 then (Inl ValueError, st)
      else
        (case fill_timetable (best_stream_index st) (ffmpeg st) 0
                (map uninitialised [0..<nat (nb_frames st)]) of
           (Inl e, L') \<Rightarrow> (Inl e, st\<lparr>ffmpeg := L'\<rparr>)
         | (Inr table, L') \<Rightarrow> (Inr (), st\<lparr>ffmpeg := L', timetable := np_sort_pts table\<rparr>)))"

subsection \<open>\<^verbatim>\<open>Stream.total_frames\<close> and \<^verbatim>\<open>Stream.timestamp\<close>\<close>

definition total_frames :: "Stream \<Rightarrow> int \<times> Stream" where
  "total_frames st = (c_int_cast (nb_frames st), st)"

text \<open>
  \<^verbatim>\<open>self.timetable[frame_index]\<close> on the typed memoryview is bounds-checked; the index is
  not negative where the module reads it.
\<close>

definition timetable_at :: "Stream \<Rightarrow> int \<Rightarrow> error + timetable_entry" where
  "timetable_at st frame_index =
     (if 0 \<le> frame_index \<and> frame_index < int (length (timetable st))
      then Inr (timetable st ! nat frame_index) else Inl IndexError)"

definition timestamp :: "Stream \<Rightarrow> int \<Rightarrow> (error + int) \<times> Stream" where
  "timestamp st index =
     (case py_to_c_int index of
        Inl e \<Rightarrow> (Inl e, st)
      | Inr frame_index \<Rightarrow>
          if frame_index < 0 \<or> frame_index \<ge> nb_frames st then (Inl IndexOutOfRange, st)
          else
            (case timetable_at st frame_index of
               Inl e \<Rightarrow> (Inl e, st)
             | Inr entry \<Rightarrow> (Inr (c_int_cast (pts entry)), st)))"

subsection \<open>The bytes of a frame\<close>

text \<open>
  \<^verbatim>\<open>_Plane.__getbuffer__\<close>: the memory of the plane and \<^verbatim>\<open>view.len\<close>.
\<close>

definition getbuffer :: "AVFrame \<Rightarrow> error + (byte list \<times> int)" where
  "getbuffer frame =
     (case frame_plane frame of
        None \<Rightarrow> Inl PlaneBufferError
      | Some buf \<Rightarrow> Inr (buf, frame_linesize frame * frame_height frame))"

text \<open>
  An array is the list of its items, a two-dimensional array the list of its rows.
  \<open>chunks n xs\<close> cuts \<open>xs\<close> into consecutive pieces of \<open>n\<close> items.
  \<^verbatim>\<open>np.frombuffer\<close> with the dtype of three \<^verbatim>\<open>u1\<close> fields reads \<^verbatim>\<open>view.len\<close> bytes as
  items of 3 bytes; \<open>np_reshape_rows xs n\<close> is \<^verbatim>\<open>xs.reshape((-1, n))\<close>. numpy raises
  \<^verbatim>\<open>ValueError\<close> where the sizes do not divide.
\<close>

definition chunks :: "nat \<Rightarrow> 'a list \<Rightarrow> 'a list list" where
  "chunks n xs = map (\<lambda>r. take n (drop (r * n) xs)) [0..<length xs div n]"

definition np_frombuffer :: "byte list \<times> int \<Rightarrow> error + byte list list" where
  "np_frombuffer view =
     (case view of
        (buf, len) \<Rightarrow>
          if len < 0 \<or> len mod 3 \<noteq> 0 then Inl ValueError
          else Inr (chunks 3 (take (nat len) buf)))"

definition np_reshape_rows :: "'a list \<Rightarrow> int \<Rightarrow> error + 'a list list" where
  "np_reshape_rows xs n =
     (if n \<le> 0 \<or> int (length xs) mod n \<noteq> 0 then Inl ValueError
      else Inr (chunks (nat n) xs))"

text \<open>The slice \<^verbatim>\<open>xs[0:stop]\<close> of Python.\<close>

definition py_slice_to :: "int \<Rightarrow> 'a list \<Rightarrow> 'a list" where
  "py_slice_to stop xs = take (nat (if stop < 0 then int (length xs) + stop else stop)) xs"

text \<open>
  \<^verbatim>\<open>a.reshape(-1).view(np.uint8).tobytes()\<close> for the flipped array \<open>a\<close>, given as the list
  of its rows. Flipped, the array has a negative stride from row to row. With two or more
  items in every row \<^verbatim>\<open>reshape(-1)\<close> copies the items into a new array; with one item in
  every row and two or more rows it returns a view that keeps the negative stride, and
  \<^verbatim>\<open>view(np.uint8)\<close> raises \<^verbatim>\<open>ValueError\<close> for it (the last axis must be contiguous to
  change the size of the dtype). An array of one row or without items has no such stride.
\<close>

definition np_flat_bytes :: "byte list list list \<Rightarrow> error + byte list" where
  "np_flat_bytes rows =
     (if 2 \<le> length rows \<and> list_all (\<lambda>row. length row = 1) rows then Inl ValueError
      else Inr (concat (concat rows)))"

text \<open>
  The numpy statements of \<^verbatim>\<open>frame_buffer\<close>: \<^verbatim>\<open>frombuffer\<close>;
  \<^verbatim>\<open>reshape((-1, linesize[0] // 3))[:, 0:width]\<close>; \<^verbatim>\<open>flipud(...).reshape(-1)\<close>;
  \<^verbatim>\<open>view(np.uint8).tobytes()\<close>.
\<close>

definition plane_bytes :: "AVFrame \<Rightarrow> error + byte list" where
  "plane_bytes frame_rgb24 =
     (case getbuffer frame_rgb24 of
        Inl e \<Rightarrow> Inl e
      | Inr view \<Rightarrow>
          (case np_frombuffer view of
             Inl e \<Rightarrow> Inl e
           | Inr np_frame_buffer \<Rightarrow>
               (case np_reshape_rows np_frame_buffer (frame_linesize frame_rgb24 div 3) of
                  Inl e \<Rightarrow> Inl e
                | Inr rows \<Rightarrow>
                    np_flat_bytes (rev (map (py_slice_to (frame_width frame_rgb24)) rows)))))"

text \<open>\<^verbatim>\<open>_Swscale.rgb24\<close>.\<close>

definition rgb24 :: "ffmpeg \<Rightarrow> AVFrame \<Rightarrow> AVFrame \<times> ffmpeg" where
  "rgb24 L frame = sws_scale_frame L (av_frame_copy_props av_frame_alloc frame) frame"

subsection \<open>\<^verbatim>\<open>Stream._black_frame_buffer\<close>, \<^verbatim>\<open>Stream.frame_buffer\<close>, \<^verbatim>\<open>Stream.nearby_keyframe_buffer\<close>\<close>

text \<open>\<^verbatim>\<open>np.zeros(n, dtype=np.uint8)\<close> raises \<^verbatim>\<open>ValueError\<close> for a negative \<open>n\<close>.\<close>

definition black_frame_buffer :: "Stream \<Rightarrow> error + byte list" where
  "black_frame_buffer st =
     (if width st * height st * 3 < 0 then Inl ValueError
      else Inr (replicate (nat (width st * height st * 3)) 0))"

text \<open>
  The body of the \<^verbatim>\<open>if\<close> in the loop of \<^verbatim>\<open>frame_buffer\<close>: the frame found is converted to
  \<^verbatim>\<open>rgb24\<close>, through \<^verbatim>\<open>av_hwframe_transfer_data\<close> when the hardware decoder is enabled, and
  its plane is turned into bytes.
\<close>

definition export_frame :: "Stream \<Rightarrow> AVFrame \<Rightarrow> (error + byte list) \<times> Stream" where
  "export_frame st frame =
     (if enabled_hardware st then
        (case av_hwframe_transfer_data (ffmpeg st) av_frame_alloc frame of
           (res, frame_software, L') \<Rightarrow>
             if res < 0 then (Inl HardwareTransferError, st\<lparr>ffmpeg := L'\<rparr>)
             else
               (case rgb24 L' (av_frame_copy_props frame_software frame) of
                  (frame_rgb24, L'') \<Rightarrow> (plane_bytes frame_rgb24, st\<lparr>ffmpeg := L''\<rparr>)))
      else
        (case rgb24 (ffmpeg st) frame of
           (frame_rgb24, L') \<Rightarrow> (plane_bytes frame_rgb24, st\<lparr>ffmpeg := L'\<rparr>)))"

definition frame_buffer :: "Stream \<Rightarrow> int \<Rightarrow> (error + byte list) \<times> Stream" where
  "frame_buffer st index =
     (case py_to_c_int index of
        Inl e \<Rightarrow> (Inl e, st)
      | Inr frame_index \<Rightarrow>
          if frame_index < 0 \<or> frame_index \<ge> nb_frames st then (Inl IndexOutOfRange, st)
          else
            (case timetable_at st frame_index of
               Inl e \<Rightarrow> (Inl e, st)
             | Inr entry \<Rightarrow>
                 (case seek_keyframe st (pts entry) of
                    (Inl e, st') \<Rightarrow> (Inl e, st')
                  | (Inr _, st') \<Rightarrow>
                      (case find_frame (best_stream_index st') (pts entry) (ffmpeg st') of
                         (Inl e, L') \<Rightarrow> (Inl e, st'\<lparr>ffmpeg := L'\<rparr>)
                       | (Inr (Some frame), L') \<Rightarrow> export_frame (st'\<lparr>ffmpeg := L'\<rparr>) frame
                       | (Inr None, L') \<Rightarrow> (black_frame_buffer st', st'\<lparr>ffmpeg := L'\<rparr>)))))"

text \<open>
  \<^verbatim>\<open>np.flatnonzero\<close> of the \<^verbatim>\<open>flags\<close> column: the indices of the entries whose flag is not 0,
  ascending. \<open>py_index xs i\<close> is \<^verbatim>\<open>xs[i]\<close> for an index that the guards of the caller
  keep in range: a negative index counts from the end.
\<close>

definition keyframes :: "Stream \<Rightarrow> int list" where
  "keyframes st = map int (filter (\<lambda>i. flags (timetable st ! i) \<noteq> 0) [0..<length (timetable st)])"

definition py_index :: "'a list \<Rightarrow> int \<Rightarrow> 'a" where
  "py_index xs i = xs ! nat (if i < 0 then int (length xs) + i else i)"

definition nearby_keyframe_buffer :: "Stream \<Rightarrow> int \<Rightarrow> int \<Rightarrow> (error + byte list) \<times> Stream" where
  "nearby_keyframe_buffer st index nearby_keyframe =
     (let forward_keyframes = filter (\<lambda>k. k > index) (keyframes st);
          backward_keyframes = filter (\<lambda>k. k \<le> index) (keyframes st)
      in if nearby_keyframe < 0 \<and> \<bar>nearby_keyframe\<bar> \<le> int (length backward_keyframes)
         then frame_buffer st (py_index backward_keyframes nearby_keyframe)
         else if nearby_keyframe > 0 \<and> nearby_keyframe \<le> int (length forward_keyframes)
         then frame_buffer st (py_index forward_keyframes (nearby_keyframe - 1))
         else if nearby_keyframe = 0
         then frame_buffer st index
         else (black_frame_buffer st, st))"

subsection \<open>The layout of a plane\<close>

text \<open>
  The layout that the specification gives the plane of a picture: the lines of the
  picture from the bottom line to the top line, each followed by its padding. A picture
  is the list of its lines from top to bottom, a line the list of its pixels from left
  to right, a pixel its 3 bytes; the padding of a line is counted in pixels.
\<close>

definition bottom_up_plane :: "byte list list list \<Rightarrow> byte list list list \<Rightarrow> byte list" where
  "bottom_up_plane picture padding =
     concat (concat (map (\<lambda>(line, pad). line @ pad) (zip (rev picture) padding)))"

subsection \<open>The keyframe sequence\<close>

text \<open>
  The keyframe sequence as the specification counts it. \<open>keyframes_between st lo hi\<close>
  is the number of keyframes at the indices \<open>j\<close> with \<open>lo < j \<le> hi\<close>. The \<open>n\<close>-th
  keyframe counting backward from \<open>index\<close> is a keyframe at or before \<open>index\<close> with
  \<open>n - 1\<close> keyframes behind it up to \<open>index\<close>; the \<open>n\<close>-th keyframe after \<open>index\<close> is a
  keyframe behind \<open>index\<close> with \<open>n - 1\<close> keyframes between the two.
\<close>

definition is_keyframe :: "Stream \<Rightarrow> int \<Rightarrow> bool" where
  "is_keyframe st k \<longleftrightarrow>
     0 \<le> k \<and> k < int (length (timetable st)) \<and> flags (timetable st ! nat k) \<noteq> 0"

definition keyframes_between :: "Stream \<Rightarrow> int \<Rightarrow> int \<Rightarrow> nat" where
  "keyframes_between st lo hi =
     length (filter (\<lambda>j. is_keyframe st (int j) \<and> lo < int j \<and> int j \<le> hi) [0..<length (timetable st)])"

definition nth_keyframe_backward :: "Stream \<Rightarrow> int \<Rightarrow> int \<Rightarrow> int \<Rightarrow> bool" where
  "nth_keyframe_backward st index n k \<longleftrightarrow>
     is_keyframe st k \<and> k \<le> index \<and> int (keyframes_between st k index) = n - 1"

definition nth_keyframe_forward :: "Stream \<Rightarrow> int \<Rightarrow> int \<Rightarrow> int \<Rightarrow> bool" where
  "nth_keyframe_forward st index n k \<longleftrightarrow>
     is_keyframe st k \<and> index < k \<and> int (keyframes_between st index (k - 1)) = n - 1"

subsection \<open>Converted frames\<close>

text \<open>
  What the module relies on from \<^verbatim>\<open>sws_scale_frame\<close>: the converted frame has the size
  of the stream, lines of a whole number of pixels that hold the width, and a plane of
  \<^verbatim>\<open>linesize[0] * height\<close> bytes or more.
\<close>

definition rgb24_frame_of :: "Stream \<Rightarrow> AVFrame \<Rightarrow> bool" where
  "rgb24_frame_of st frame \<longleftrightarrow>
     frame_width frame = width st \<and> frame_height frame = height st \<and> 0 \<le> frame_width frame \<and>
     frame_linesize frame mod 3 = 0 \<and> 3 * frame_width frame \<le> frame_linesize frame \<and>
     (case frame_plane frame of
        None \<Rightarrow> False
      | Some buf \<Rightarrow> frame_linesize frame * frame_height frame \<le> int (length buf))"

subsection \<open>Examples\<close>

text \<open>
  A stream of three frames of 2 by 2 pixels, decoded in the order 0, 2, 1 of their
  timestamps, with lines of 9 bytes (one pixel of padding).
\<close>

definition example_plane :: "byte list" where
  "example_plane = [1, 2, 3, 4, 5, 6, 0, 0, 0, 7, 8, 9, 10, 11, 12, 0, 0, 0]"

definition example_frame :: "int \<Rightarrow> AVFrame" where
  "example_frame t = \<lparr>frame_pts = t, frame_width = 2, frame_height = 2, frame_linesize = 9,
     frame_plane = Some example_plane\<rparr>"

definition example_packet :: "int \<Rightarrow> int \<Rightarrow> int \<Rightarrow> AVPacket" where
  "example_packet t d k = \<lparr>pkt_pts = t, pkt_dts = d, pkt_flags = k, pkt_stream_index = 0\<rparr>"

definition example_ffmpeg :: ffmpeg where
  "example_ffmpeg = \<lparr>
     read_results = [(0, example_packet 0 0 1), (0, example_packet 20 10 0), (0, example_packet 10 20 0)],
     seek_results = [0],
     send_results = [0, 0, 0, 0],
     receive_results = [(AVERROR_EOF, av_frame_alloc), (0, example_frame 0), (AVERROR_EAGAIN, av_frame_alloc),
       (AVERROR_EAGAIN, av_frame_alloc), (0, example_frame 10), (0, example_frame 20)],
     transfer_results = [],
     scale_results = [example_frame 10]\<rparr>"

definition example_stream :: Stream where
  "example_stream = \<lparr>ffmpeg = example_ffmpeg, best_stream_index = 0, nb_frames = 3,
     width = 2, height = 2, enabled_hardware = False,
     timetable = [\<lparr>pts = 0, dts = 0, flags = 1\<rparr>, \<lparr>pts = 10, dts = 20, flags = 0\<rparr>,
                  \<lparr>pts = 20, dts = 10, flags = 0\<rparr>]\<rparr>"

text \<open>A decoder that was sent one packet with the result \<open>send\<close> and gives two frames, then \<open>res\<close>.\<close>

definition example_decoder :: "int \<Rightarrow> int \<Rightarrow> ffmpeg" where
  "example_decoder send res = \<lparr>read_results = [], seek_results = [], send_results = [send],
     receive_results = [(0, example_frame 10), (0, example_frame 20), (res, av_frame_alloc), (0, example_frame 30)],
     transfer_results = [], scale_results = []\<rparr>"

text \<open>A timetable of six frames with keyframes at the indices 0, 3 and 5.\<close>

definition example_gops :: Stream where
  "example_gops = \<lparr>ffmpeg = example_ffmpeg, best_stream_index = 0, nb_frames = 6,
     width = 2, height = 2, enabled_hardware = False,
     timetable = [\<lparr>pts = 0, dts = 0, flags = 1\<rparr>, \<lparr>pts = 10, dts = 20, flags = 0\<rparr>,
                  \<lparr>pts = 20, dts = 10, flags = 0\<rparr>, \<lparr>pts = 30, dts = 30, flags = 1\<rparr>,
                  \<lparr>pts = 40, dts = 40, flags = 0\<rparr>, \<lparr>pts = 50, dts = 50, flags = 1\<rparr>]\<rparr>"

text \<open>The stream of the first example with a decoder that never gives the frame of timestamp 10.\<close>

definition example_missing :: Stream where
  "example_missing = example_stream\<lparr>ffmpeg := example_ffmpeg\<lparr>receive_results :=
     [(AVERROR_EOF, av_frame_alloc), (0, example_frame 0), (AVERROR_EAGAIN, av_frame_alloc),
      (AVERROR_EAGAIN, av_frame_alloc), (0, example_frame 20)]\<rparr>\<rparr>"

definition example_drained :: ffmpeg where
  "example_drained = \<lparr>read_results = [], seek_results = [], send_results = [],
     receive_results = [], transfer_results = [], scale_results = [example_frame 10]\<rparr>"

text \<open>A file of two packets whose timestamps lie on both sides of \<open>2 ^ 31\<close>.\<close>

definition example_long :: Stream where
  "example_long = \<lparr>
     ffmpeg = \<lparr>read_results = [(0, example_packet 2147483647 2147483647 1), (0, example_packet 2147483648 2147483648 0)],
       seek_results = [], send_results = [], receive_results = [], transfer_results = [],
       scale_results = []\<rparr>,
     best_stream_index = 0, nb_frames = 2, width = 2, height = 2, enabled_hardware = False,
     timetable = []\<rparr>"

text \<open>A file of one packet in a container that declares two frames.\<close>

definition example_short :: Stream where
  "example_short = \<lparr>
     ffmpeg = \<lparr>read_results = [(0, example_packet 0 0 1)],
       seek_results = [], send_results = [], receive_results = [], transfer_results = [],
       scale_results = []\<rparr>,
     best_stream_index = 0, nb_frames = 2, width = 2, height = 2, enabled_hardware = False,
     timetable = []\<rparr>"

definition zero_entry :: "nat \<Rightarrow> timetable_entry" where
  "zero_entry k = \<lparr>pts = 0, dts = 0, flags = 0\<rparr>"

text \<open>
  A stream of two frames, one pixel wide and two lines high, with lines of 6 bytes (one
  pixel of padding); the converted frame holds the line 1, 2, 3 below the line 4, 5, 6.
\<close>

definition example_narrow_frame :: "int \<Rightarrow> AVFrame" where
  "example_narrow_frame t = \<lparr>frame_pts = t, frame_width = 1, frame_height = 2, frame_linesize = 6,
     frame_plane = Some [1, 2, 3, 0, 0, 0, 4, 5, 6, 0, 0, 0]\<rparr>"

definition example_narrow_ffmpeg :: ffmpeg where
  "example_narrow_ffmpeg = \<lparr>
     read_results = [(0, example_packet 0 0 1), (0, example_packet 10 10 0)],
     seek_results = [0],
     send_results = [0, 0, 0],
     receive_results = [(AVERROR_EOF, av_frame_alloc), (0, example_narrow_frame 0),
       (AVERROR_EAGAIN, av_frame_alloc), (0, example_narrow_frame 10)],
     transfer_results = [],
     scale_results = [example_narrow_frame 0]\<rparr>"

definition example_narrow :: Stream where
  "example_narrow = \<lparr>ffmpeg = example_narrow_ffmpeg, best_stream_index = 0, nb_frames = 2,
     width = 1, height = 2, enabled_hardware = False,
     timetable = [\<lparr>pts = 0, dts = 0, flags = 1\<rparr>, \<lparr>pts = 10, dts = 10, flags = 0\<rparr>]\<rparr>"

text \<open>Memory that \<^verbatim>\<open>np.ndarray\<close> hands out with what was left in it.\<close>

definition stale_entry :: "nat \<Rightarrow> timetable_entry" where
  "stale_entry k = \<lparr>pts = 500 + int k, dts = - 1, flags = 1\<rparr>"

section \<open>Properties\<close>

subsection \<open>Errors of the decoding loops\<close>

lemma receive_loop_error:
  "receive_loop L frames = (Inl e, L') \<Longrightarrow> e = DecodeError"
proof (induction L frames rule: receive_loop.induct)
  case (1 L frames)
  obtain r L1 where rf: "receive_frame L = (r, L1)"
    by (cases "receive_frame L") auto
  show ?case
  proof (cases r)
    case (Inl e')
    with rf have "e' = DecodeError"
      by (auto simp: receive_frame_def split: prod.splits if_splits)
    with Inl rf "1.prems" show ?thesis
      by (simp add: receive_loop.simps [of L frames])
  next
    case (Inr y)
    show ?thesis
    proof (cases y)
      case None
      with Inr rf "1.prems" show ?thesis
        by (simp add: receive_loop.simps [of L frames])
    next
      case (Some frame)
      with Inr rf "1.prems" have "receive_loop L1 (frames @ [frame]) = (Inl e, L')"
        by (simp add: receive_loop.simps [of L frames])
      with "1.IH" [OF rf [symmetric] Inr Some] show ?thesis by simp
    qed
  qed
qed

lemma decode_error:
  "decode L packet = (Inl e, L') \<Longrightarrow> e = DecodeError"
  by (auto simp: decode_def split: prod.splits if_splits dest: receive_loop_error)

lemma find_frame_error:
  "find_frame best target L = (Inl e, L') \<Longrightarrow> e = DecodeError"
proof (induction best target L rule: find_frame.induct)
  case (1 best target L)
  obtain x L1 where ip: "iter_packet best L = (x, L1)"
    by (cases "iter_packet best L") auto
  show ?case
  proof (cases x)
    case None
    with ip "1.prems" show ?thesis
      by (simp add: find_frame.simps [of best target L])
  next
    case (Some packet)
    obtain y L2 where d: "decode L1 packet = (y, L2)"
      by (cases "decode L1 packet") auto
    show ?thesis
    proof (cases y)
      case (Inl e')
      with d have "e' = DecodeError" by (auto dest: decode_error)
      with Inl d Some ip "1.prems" show ?thesis
        by (simp add: find_frame.simps [of best target L])
    next
      case (Inr frames)
      show ?thesis
      proof (cases "find (\<lambda>frame. frame_pts frame = target) frames")
        case None
        with Inr d Some ip "1.prems" have "find_frame best target L2 = (Inl e, L')"
          by (simp add: find_frame.simps [of best target L])
        with "1.IH" [OF ip [symmetric] Some d [symmetric] Inr None] show ?thesis by simp
      next
        case (Some frame)
        with Inr d \<open>x = Some packet\<close> ip "1.prems" show ?thesis
          by (simp add: find_frame.simps [of best target L])
      qed
    qed
  qed
qed

lemma plane_bytes_error:
  "plane_bytes frame = Inl e \<Longrightarrow> e = PlaneBufferError \<or> e = ValueError"
  by (auto simp: plane_bytes_def getbuffer_def np_frombuffer_def np_reshape_rows_def np_flat_bytes_def
      split: option.splits sum.splits if_splits prod.splits)

lemma export_frame_error:
  "export_frame st frame = (Inl e, st') \<Longrightarrow>
     e = HardwareTransferError \<or> e = PlaneBufferError \<or> e = ValueError"
  by (auto simp: export_frame_def split: if_splits prod.splits dest: plane_bytes_error)

lemma black_frame_buffer_error:
  "black_frame_buffer st = Inl e \<Longrightarrow> e = ValueError"
  by (auto simp: black_frame_buffer_def split: if_splits)

lemma seek_keyframe_error:
  "seek_keyframe st ts = (Inl e, st') \<Longrightarrow> e = SeekError"
  by (auto simp: seek_keyframe_def split: prod.splits if_splits)

lemma frame_buffer_valid_error:
  assumes "py_to_c_int index = Inr index" "0 \<le> index" "index < nb_frames st"
    and "frame_buffer st index = (Inl e, st')"
  shows "e \<noteq> IndexOutOfRange"
proof -
  show ?thesis
  proof (cases "timetable_at st index")
    case (Inl e')
    then have "e' = IndexError"
      by (auto simp: timetable_at_def split: if_splits)
    with Inl assms show ?thesis by (simp add: frame_buffer_def)
  next
    case (Inr entry)
    obtain r st1 where sk: "seek_keyframe st (pts entry) = (r, st1)"
      by (cases "seek_keyframe st (pts entry)") auto
    show ?thesis
    proof (cases r)
      case (Inl e')
      with sk have "e' = SeekError" by (auto dest: seek_keyframe_error)
      with Inl sk Inr assms show ?thesis by (simp add: frame_buffer_def)
    next
      case r: (Inr u)
      obtain y L2 where ff: "find_frame (best_stream_index st1) (pts entry) (ffmpeg st1) = (y, L2)"
        by (cases "find_frame (best_stream_index st1) (pts entry) (ffmpeg st1)") auto
      show ?thesis
      proof (cases y)
        case (Inl e')
        with ff have "e' = DecodeError" by (auto dest: find_frame_error)
        with Inl ff r sk Inr assms show ?thesis by (simp add: frame_buffer_def)
      next
        case y: (Inr found)
        show ?thesis
        proof (cases found)
          case None
          with y ff r sk Inr assms have "black_frame_buffer st1 = Inl e"
            by (simp add: frame_buffer_def)
          then show ?thesis by (auto dest: black_frame_buffer_error)
        next
          case (Some frame)
          with y ff r sk Inr assms have "export_frame (st1\<lparr>ffmpeg := L2\<rparr>) frame = (Inl e, st')"
            by (simp add: frame_buffer_def)
          then show ?thesis by (auto dest: export_frame_error)
        qed
      qed
    qed
  qed
qed

subsection \<open>Checked indices\<close>

lemma c_int_cast_id: "- (2 ^ 31) \<le> x \<Longrightarrow> x < 2 ^ 31 \<Longrightarrow> c_int_cast x = x"
  by (simp add: c_int_cast_def)

text \<open>
  C3, as amended. An index that fits a C \<^verbatim>\<open>int\<close> makes \<open>timestamp\<close> and \<open>frame_buffer\<close>
  raise the out-of-bounds \<^verbatim>\<open>VIDEOError\<close> exactly when it is negative or at least
  \<^verbatim>\<open>stream.nb_frames\<close>; an index that does not fit raises \<^verbatim>\<open>OverflowError\<close> in the
  conversion. In both cases \<open>frame_buffer\<close> leaves the stream as it was: the index is
  not replaced by a valid one. \<open>total_frames\<close> is \<^verbatim>\<open>stream.nb_frames\<close> when that fits a
  C \<^verbatim>\<open>int\<close>, and then \<open>frame_buffer\<close> fails at \<open>-1\<close> and at \<open>total_frames\<close>.
\<close>

theorem index_out_of_range_iff:
  "(- (2 ^ 31) \<le> index \<and> index < 2 ^ 31 \<longrightarrow>
      (fst (timestamp st index) = Inl IndexOutOfRange \<longleftrightarrow> index < 0 \<or> index \<ge> nb_frames st) \<and>
      (fst (frame_buffer st index) = Inl IndexOutOfRange \<longleftrightarrow> index < 0 \<or> index \<ge> nb_frames st))
   \<and> (\<not> (- (2 ^ 31) \<le> index \<and> index < 2 ^ 31) \<longrightarrow>
      fst (timestamp st index) = Inl OverflowError \<and> fst (frame_buffer st index) = Inl OverflowError)
   \<and> (\<not> (- (2 ^ 31) \<le> index \<and> index < 2 ^ 31) \<or> index < 0 \<or> index \<ge> nb_frames st \<longrightarrow>
      snd (frame_buffer st index) = st)
   \<and> (0 \<le> nb_frames st \<and> nb_frames st < 2 ^ 31 \<longrightarrow>
      fst (total_frames st) = nb_frames st \<and>
      fst (frame_buffer st (- 1)) = Inl IndexOutOfRange \<and>
      fst (frame_buffer st (fst (total_frames st))) = Inl IndexOutOfRange)"
proof (intro conjI impI)
  assume r: "- (2 ^ 31) \<le> index \<and> index < 2 ^ 31"
  then have c: "py_to_c_int index = Inr index" by (simp add: py_to_c_int_def)
  show "fst (timestamp st index) = Inl IndexOutOfRange \<longleftrightarrow> index < 0 \<or> index \<ge> nb_frames st"
    using c by (auto simp: timestamp_def timetable_at_def split: sum.splits if_splits)
  show "fst (frame_buffer st index) = Inl IndexOutOfRange \<longleftrightarrow> index < 0 \<or> index \<ge> nb_frames st"
  proof
    assume "fst (frame_buffer st index) = Inl IndexOutOfRange"
    then obtain st' where fb: "frame_buffer st index = (Inl IndexOutOfRange, st')"
      by (cases "frame_buffer st index") auto
    show "index < 0 \<or> index \<ge> nb_frames st"
    proof (rule ccontr)
      assume "\<not> (index < 0 \<or> index \<ge> nb_frames st)"
      then have "0 \<le> index" "index < nb_frames st" by auto
      from frame_buffer_valid_error [OF c this fb] show False by simp
    qed
  next
    assume "index < 0 \<or> index \<ge> nb_frames st"
    with c show "fst (frame_buffer st index) = Inl IndexOutOfRange"
      by (auto simp: frame_buffer_def)
  qed
next
  assume "\<not> (- (2 ^ 31) \<le> index \<and> index < 2 ^ 31)"
  then have c: "py_to_c_int index = Inl OverflowError" by (auto simp: py_to_c_int_def)
  then show "fst (timestamp st index) = Inl OverflowError" by (simp add: timestamp_def)
  from c show "fst (frame_buffer st index) = Inl OverflowError" by (simp add: frame_buffer_def)
next
  assume "\<not> (- (2 ^ 31) \<le> index \<and> index < 2 ^ 31) \<or> index < 0 \<or> index \<ge> nb_frames st"
  then show "snd (frame_buffer st index) = st"
    by (auto simp: frame_buffer_def py_to_c_int_def)
next
  assume n: "0 \<le> nb_frames st \<and> nb_frames st < 2 ^ 31"
  then show t: "fst (total_frames st) = nb_frames st"
    by (simp add: total_frames_def c_int_cast_id)
  show "fst (frame_buffer st (- 1)) = Inl IndexOutOfRange"
    by (simp add: frame_buffer_def py_to_c_int_def)
  from n show "fst (frame_buffer st (fst (total_frames st))) = Inl IndexOutOfRange"
    unfolding t by (simp add: frame_buffer_def py_to_c_int_def)
qed

theorem index_out_of_range_iff_witness:
  "fst (timestamp example_stream 3) = Inl IndexOutOfRange
   \<and> fst (frame_buffer example_stream 3) = Inl IndexOutOfRange
   \<and> fst (timestamp example_stream 2) \<noteq> Inl IndexOutOfRange
   \<and> fst (frame_buffer example_stream 2) \<noteq> Inl IndexOutOfRange
   \<and> fst (frame_buffer example_stream (2 ^ 31)) = Inl OverflowError
   \<and> snd (frame_buffer example_stream 3) = example_stream
   \<and> fst (total_frames example_stream) = 3
   \<and> fst (frame_buffer example_stream (- 1)) = Inl IndexOutOfRange
   \<and> fst (frame_buffer example_stream (fst (total_frames example_stream))) = Inl IndexOutOfRange"
  using index_out_of_range_iff [of 3 example_stream]
    index_out_of_range_iff [of 2 example_stream]
    index_out_of_range_iff [of "2 ^ 31" example_stream]
  by (simp add: example_stream_def)

theorem index_out_of_range_counterexample:
  "2 ^ 31 \<ge> fst (total_frames example_stream)
   \<and> fst (timestamp example_stream (2 ^ 31)) \<noteq> Inl IndexOutOfRange
   \<and> fst (frame_buffer example_stream (2 ^ 31)) \<noteq> Inl IndexOutOfRange"
  by (simp add: example_stream_def total_frames_def c_int_cast_def timestamp_def
      frame_buffer_def py_to_c_int_def)

text \<open>
  C10. \<open>timestamp\<close> and \<open>total_frames\<close> return the stream they were given, for every
  stream and every index, also where \<open>timestamp\<close> raises: the results the libraries
  have yet to give (read position, decoder), the hardware flag and the timetable are
  the same after the call.
\<close>

theorem observers_keep_stream:
  "snd (timestamp st index) = st \<and> snd (total_frames st) = st"
  by (simp add: timestamp_def total_frames_def split: sum.splits)


subsection \<open>The format-selection callback\<close>

text \<open>
  On any array of candidates ended by \<^verbatim>\<open>AV_PIX_FMT_NONE\<close> the callback returns the first
  candidate that is the hardware format or the software format, and the end mark when
  there is none.
\<close>

lemma get_hw_format_first_offered:
  assumes "AV_PIX_FMT_NONE \<notin> set candidates"
  shows "get_hw_format hw_pix_fmt sw_pix_fmt (candidates @ AV_PIX_FMT_NONE # rest) =
     Some (if hw_pix_fmt \<in> set candidates \<and> sw_pix_fmt \<notin> set (takeWhile (\<lambda>f. f \<noteq> hw_pix_fmt) candidates)
           then hw_pix_fmt
           else if sw_pix_fmt \<in> set candidates then sw_pix_fmt
           else AV_PIX_FMT_NONE)"
  using assms
proof (induction candidates)
  case Nil
  then show ?case by simp
next
  case (Cons c cs)
  then show ?case by auto
qed

lemma get_hw_format_software_last:
  assumes "AV_PIX_FMT_NONE \<notin> set cs" "sw_pix_fmt \<notin> set cs" "sw_pix_fmt \<noteq> AV_PIX_FMT_NONE"
  shows "get_hw_format hw_pix_fmt sw_pix_fmt (cs @ sw_pix_fmt # AV_PIX_FMT_NONE # rest) =
     Some (if hw_pix_fmt \<in> set cs then hw_pix_fmt else sw_pix_fmt)"
  using assms by (induction cs) auto

lemma get_hw_format_no_software:
  assumes "AV_PIX_FMT_NONE \<notin> set cs"
  shows "get_hw_format hw_pix_fmt AV_PIX_FMT_NONE (cs @ AV_PIX_FMT_NONE # rest) =
     Some (if hw_pix_fmt \<in> set cs then hw_pix_fmt else AV_PIX_FMT_NONE)"
  using assms by (induction cs) auto

text \<open>
  C6. The decoder hands the callback its candidates, ended by \<^verbatim>\<open>AV_PIX_FMT_NONE\<close>, with
  its software format as the last candidate and \<^verbatim>\<open>ctx.sw_pix_fmt\<close> set to it; when it has
  no software format to offer, \<^verbatim>\<open>ctx.sw_pix_fmt\<close> is \<^verbatim>\<open>AV_PIX_FMT_NONE\<close>. On such candidates
  the callback selects the hardware format when it is among them and the software format
  otherwise: the result is the software format exactly when the hardware format is not
  offered (or is the software format itself).
\<close>

theorem get_hw_format_selects:
  assumes "AV_PIX_FMT_NONE \<notin> set candidates"
    and "sw_pix_fmt = AV_PIX_FMT_NONE \<or>
         (candidates \<noteq> [] \<and> last candidates = sw_pix_fmt \<and> sw_pix_fmt \<notin> set (butlast candidates))"
  shows "get_hw_format hw_pix_fmt sw_pix_fmt (candidates @ AV_PIX_FMT_NONE # rest) =
           Some (spec_hw_format hw_pix_fmt sw_pix_fmt candidates)
    \<and> (get_hw_format hw_pix_fmt sw_pix_fmt (candidates @ AV_PIX_FMT_NONE # rest) = Some sw_pix_fmt
          \<longleftrightarrow> hw_pix_fmt \<notin> set candidates \<or> hw_pix_fmt = sw_pix_fmt)"
proof -
  have selected: "get_hw_format hw_pix_fmt sw_pix_fmt (candidates @ AV_PIX_FMT_NONE # rest) =
      Some (spec_hw_format hw_pix_fmt sw_pix_fmt candidates)"
  proof (cases "sw_pix_fmt = AV_PIX_FMT_NONE")
    case True
    with get_hw_format_no_software [OF assms(1), of hw_pix_fmt rest] show ?thesis
      by (simp add: spec_hw_format_def)
  next
    case False
    with assms(2) have last: "candidates = butlast candidates @ [sw_pix_fmt]"
      and first: "sw_pix_fmt \<notin> set (butlast candidates)"
      by (auto simp: append_butlast_last_id)
    from assms(1) have "AV_PIX_FMT_NONE \<notin> set (butlast candidates)"
      by (auto dest: in_set_butlastD)
    from get_hw_format_software_last [OF this first False, of hw_pix_fmt rest]
    have "get_hw_format hw_pix_fmt sw_pix_fmt ((butlast candidates @ [sw_pix_fmt]) @ AV_PIX_FMT_NONE # rest) =
        Some (if hw_pix_fmt \<in> set (butlast candidates) then hw_pix_fmt else sw_pix_fmt)"
      by simp
    moreover have "spec_hw_format hw_pix_fmt sw_pix_fmt (butlast candidates @ [sw_pix_fmt]) =
        (if hw_pix_fmt \<in> set (butlast candidates) then hw_pix_fmt else sw_pix_fmt)"
      by (auto simp: spec_hw_format_def)
    ultimately show ?thesis
      using last by metis
  qed
  then show ?thesis
    by (auto simp: spec_hw_format_def)
qed

theorem get_hw_format_selects_witness:
  "get_hw_format (PixFmt 44) (PixFmt 0) ([PixFmt 23, PixFmt 44, PixFmt 0] @ AV_PIX_FMT_NONE # []) = Some (PixFmt 44)
   \<and> get_hw_format (PixFmt 44) (PixFmt 0) ([PixFmt 23, PixFmt 0] @ AV_PIX_FMT_NONE # []) = Some (PixFmt 0)
   \<and> get_hw_format (PixFmt 44) AV_PIX_FMT_NONE ([PixFmt 23, PixFmt 44] @ AV_PIX_FMT_NONE # []) = Some (PixFmt 44)
   \<and> get_hw_format (PixFmt 44) AV_PIX_FMT_NONE ([PixFmt 23] @ AV_PIX_FMT_NONE # []) = Some AV_PIX_FMT_NONE"
  using get_hw_format_selects [of "[PixFmt 23, PixFmt 44, PixFmt 0]" "PixFmt 0" "PixFmt 44" "[]"]
    get_hw_format_selects [of "[PixFmt 23, PixFmt 0]" "PixFmt 0" "PixFmt 44" "[]"]
    get_hw_format_selects [of "[PixFmt 23, PixFmt 44]" AV_PIX_FMT_NONE "PixFmt 44" "[]"]
    get_hw_format_selects [of "[PixFmt 23]" AV_PIX_FMT_NONE "PixFmt 44" "[]"]
  by (simp add: spec_hw_format_def)

subsection \<open>The decode step of a packet\<close>

lemma receive_loop_script:
  assumes "receive_results L = map (Pair 0) fs @ (res, frame) # rest" "res \<noteq> 0"
  shows "receive_loop L frames =
     (if res \<in> {AVERROR_EOF, AVERROR_EAGAIN} then Inr (frames @ fs) else Inl DecodeError,
      L\<lparr>receive_results := rest\<rparr>)"
  using assms
proof (induction fs arbitrary: L frames)
  case Nil
  then show ?case
    by (simp add: receive_loop.simps [of L frames] receive_frame_def avcodec_receive_frame_def)
next
  case (Cons f fs)
  let ?L1 = "L\<lparr>receive_results := map (Pair 0) fs @ (res, frame) # rest\<rparr>"
  from Cons.prems have "receive_frame L = (Inr (Some f), ?L1)"
    by (simp add: receive_frame_def avcodec_receive_frame_def)
  then have "receive_loop L frames = receive_loop ?L1 (frames @ [f])"
    by (simp add: receive_loop.simps [of L frames])
  also have "\<dots> = (if res \<in> {AVERROR_EOF, AVERROR_EAGAIN} then Inr ((frames @ [f]) @ fs) else Inl DecodeError,
      ?L1\<lparr>receive_results := rest\<rparr>)"
    using Cons.prems(2) by (intro Cons.IH) simp_all
  finally show ?case by simp
qed

text \<open>
  C7. (1) A result other than 0 of sending the packet gives no frames, without an error
  and without asking the decoder for a frame. (2) \<open>receive_frame\<close> returns the frame for
  the result 0, nothing for \<^verbatim>\<open>AVERROR_EOF\<close> and \<^verbatim>\<open>AVERROR(EAGAIN)\<close>, and raises the
  decode error for every other result. (3) After a packet was sent with result 0, with
  the decoder giving the frames \<open>fs\<close> and then the result \<open>res \<noteq> 0\<close>: for \<^verbatim>\<open>AVERROR_EOF\<close>
  and \<^verbatim>\<open>AVERROR(EAGAIN)\<close> the packet's frames are \<open>fs\<close> and the receiving stops there;
  for every other \<open>res\<close> the decode error is raised.
\<close>

theorem decode_result_codes:
  "(fst (avcodec_send_packet L (Some packet)) \<noteq> 0 \<longrightarrow>
      decode L packet = (Inr [], snd (avcodec_send_packet L (Some packet))) \<and>
      receive_results (snd (decode L packet)) = receive_results L)
   \<and> (fst (avcodec_receive_frame L) = 0 \<longrightarrow>
        fst (receive_frame L) = Inr (Some (fst (snd (avcodec_receive_frame L)))))
   \<and> (fst (avcodec_receive_frame L) \<in> {AVERROR_EOF, AVERROR_EAGAIN} \<longrightarrow>
        fst (receive_frame L) = Inr None)
   \<and> (fst (avcodec_receive_frame L) \<notin> {0, AVERROR_EOF, AVERROR_EAGAIN} \<longrightarrow>
        fst (receive_frame L) = Inl DecodeError)
   \<and> (fst (avcodec_send_packet L (Some packet)) = 0 \<and>
      receive_results L = map (Pair 0) fs @ (res, frame) # rest \<and> res \<noteq> 0 \<longrightarrow>
        (res \<in> {AVERROR_EOF, AVERROR_EAGAIN} \<longrightarrow>
           fst (decode L packet) = Inr fs \<and> receive_results (snd (decode L packet)) = rest) \<and>
        (res \<notin> {AVERROR_EOF, AVERROR_EAGAIN} \<longrightarrow> fst (decode L packet) = Inl DecodeError))"
proof -
  have sent: "decode L packet =
     (if res \<in> {AVERROR_EOF, AVERROR_EAGAIN} then Inr fs else Inl DecodeError,
      (snd (avcodec_send_packet L (Some packet)))\<lparr>receive_results := rest\<rparr>)"
    if a: "fst (avcodec_send_packet L (Some packet)) = 0 \<and>
      receive_results L = map (Pair 0) fs @ (res, frame) # rest \<and> res \<noteq> 0"
  proof -
    obtain L1 where s: "avcodec_send_packet L (Some packet) = (0, L1)"
      using a by (cases "avcodec_send_packet L (Some packet)") auto
    then have "receive_results L1 = receive_results L"
      by (auto simp: avcodec_send_packet_def split: list.splits)
    with a have r: "receive_results L1 = map (Pair 0) fs @ (res, frame) # rest" by simp
    from a have "res \<noteq> 0" by simp
    from receive_loop_script [OF r this, of "[]"] s show ?thesis
      by (simp add: decode_def)
  qed
  show ?thesis
  proof (intro conjI impI)
    assume "fst (avcodec_send_packet L (Some packet)) \<noteq> 0"
    then show "decode L packet = (Inr [], snd (avcodec_send_packet L (Some packet)))"
      by (cases "avcodec_send_packet L (Some packet)") (simp add: decode_def)
    then show "receive_results (snd (decode L packet)) = receive_results L"
      by (simp add: avcodec_send_packet_def split: list.splits)
  next
    assume "fst (avcodec_receive_frame L) = 0"
    then show "fst (receive_frame L) = Inr (Some (fst (snd (avcodec_receive_frame L))))"
      by (cases "avcodec_receive_frame L") (simp add: receive_frame_def)
  next
    assume "fst (avcodec_receive_frame L) \<in> {AVERROR_EOF, AVERROR_EAGAIN}"
    then show "fst (receive_frame L) = Inr None"
      by (cases "avcodec_receive_frame L")
        (auto simp: receive_frame_def AVERROR_EOF_def AVERROR_EAGAIN_def)
  next
    assume "fst (avcodec_receive_frame L) \<notin> {0, AVERROR_EOF, AVERROR_EAGAIN}"
    then show "fst (receive_frame L) = Inl DecodeError"
      by (cases "avcodec_receive_frame L") (auto simp: receive_frame_def)
  next
    assume a: "fst (avcodec_send_packet L (Some packet)) = 0 \<and>
        receive_results L = map (Pair 0) fs @ (res, frame) # rest \<and> res \<noteq> 0"
      and ok: "res \<in> {AVERROR_EOF, AVERROR_EAGAIN}"
    from sent [OF a] ok show "fst (decode L packet) = Inr fs" by simp
    from sent [OF a] ok show "receive_results (snd (decode L packet)) = rest" by simp
  next
    assume a: "fst (avcodec_send_packet L (Some packet)) = 0 \<and>
        receive_results L = map (Pair 0) fs @ (res, frame) # rest \<and> res \<noteq> 0"
      and bad: "res \<notin> {AVERROR_EOF, AVERROR_EAGAIN}"
    from sent [OF a] bad show "fst (decode L packet) = Inl DecodeError" by simp
  qed
qed

theorem decode_result_codes_witness:
  "decode (example_decoder AVERROR_EAGAIN 0) (example_packet 10 20 0)
     = (Inr [], (example_decoder AVERROR_EAGAIN 0)\<lparr>send_results := []\<rparr>)
   \<and> fst (receive_frame (example_decoder 0 0)) = Inr (Some (example_frame 10))
   \<and> fst (decode (example_decoder 0 AVERROR_EAGAIN) (example_packet 10 20 0))
       = Inr [example_frame 10, example_frame 20]
   \<and> receive_results (snd (decode (example_decoder 0 AVERROR_EAGAIN) (example_packet 10 20 0)))
       = [(0, example_frame 30)]
   \<and> fst (decode (example_decoder 0 AVERROR_EOF) (example_packet 10 20 0))
       = Inr [example_frame 10, example_frame 20]
   \<and> fst (decode (example_decoder 0 (- 22)) (example_packet 10 20 0)) = Inl DecodeError"
  using decode_result_codes [of "example_decoder AVERROR_EAGAIN 0" "example_packet 10 20 0"]
    decode_result_codes [of "example_decoder 0 0"]
    decode_result_codes [of "example_decoder 0 AVERROR_EAGAIN" "example_packet 10 20 0"
      "[example_frame 10, example_frame 20]" AVERROR_EAGAIN av_frame_alloc "[(0, example_frame 30)]"]
    decode_result_codes [of "example_decoder 0 AVERROR_EOF" "example_packet 10 20 0"
      "[example_frame 10, example_frame 20]" AVERROR_EOF av_frame_alloc "[(0, example_frame 30)]"]
    decode_result_codes [of "example_decoder 0 (- 22)" "example_packet 10 20 0"
      "[example_frame 10, example_frame 20]" "- 22" av_frame_alloc "[(0, example_frame 30)]"]
  by (simp add: example_decoder_def avcodec_send_packet_def avcodec_receive_frame_def
      AVERROR_EAGAIN_def AVERROR_EOF_def)

subsection \<open>The bytes of a frame\<close>

lemma chunks_concat:
  assumes "\<forall>xs \<in> set xss. length xs = n" "0 < n"
  shows "chunks n (concat xss) = xss"
  using assms
proof (induction xss)
  case Nil
  then show ?case by (simp add: chunks_def)
next
  case (Cons xs xss)
  then have len: "length xs = n" and rest: "\<forall>ys \<in> set xss. length ys = n" by simp_all
  have total: "length (concat xss) = length xss * n"
    using rest by (induction xss) simp_all
  have "chunks n (concat (xs # xss)) =
      map (\<lambda>r. take n (drop (r * n) (xs @ concat xss))) [0..<Suc (length xss)]"
    using len total \<open>0 < n\<close> by (simp add: chunks_def)
  also have "\<dots> = take n (xs @ concat xss) #
      map (\<lambda>r. take n (drop (Suc r * n) (xs @ concat xss))) [0..<length xss]"
    by (simp only: upt_conv_Cons [of 0 "Suc (length xss)"] map_Suc_upt [symmetric])
      (simp add: comp_def)
  also have "\<dots> = xs # map (\<lambda>r. take n (drop (r * n) (concat xss))) [0..<length xss]"
    using len by simp
  also have "\<dots> = xs # chunks n (concat xss)"
    using total \<open>0 < n\<close> by (simp add: chunks_def)
  finally show ?case using Cons.IH [OF rest \<open>0 < n\<close>] by simp
qed

lemma length_concat_uniform:
  "\<forall>xs \<in> set xss. length xs = n \<Longrightarrow> length (concat xss) = length xss * n"
  by (induction xss) simp_all

text \<open>
  For a frame whose plane holds a picture of \<open>w\<close> pixels a line from the bottom line to
  the top line, each line padded to \<^verbatim>\<open>linesize[0]\<close> bytes, the bytes that \<open>frame_buffer\<close>
  makes of the plane are the lines of the picture from top to bottom, the pixels of a
  line from left to right, 3 bytes a pixel, without the padding: as long as the picture
  is not one pixel wide, or has one line at most.
\<close>

lemma plane_bytes_top_down:
  assumes rows: "\<forall>line \<in> set picture. length line = w \<and> (\<forall>pixel \<in> set line. length pixel = 3)"
    and pads: "length padding = length picture"
      "\<forall>pad \<in> set padding. length pad = p \<and> (\<forall>pixel \<in> set pad. length pixel = 3)"
    and wide: "0 < w + p"
    and columns: "w \<noteq> 1 \<or> length picture \<le> 1"
    and frame: "frame_width frame = int w" "frame_height frame = int (length picture)"
      "frame_linesize frame = 3 * int (w + p)"
      "frame_plane frame = Some (bottom_up_plane picture padding @ behind)"
  shows "plane_bytes frame = Inr (concat (concat picture))"
proof -
  define lines where "lines = map (\<lambda>(line, pad). line @ pad) (zip (rev picture) padding)"
  have n_lines: "length lines = length picture"
    using pads(1) by (simp add: lines_def)
  have parts: "\<exists>line pad. l = line @ pad \<and> line \<in> set picture \<and> pad \<in> set padding"
    if "l \<in> set lines" for l
  proof -
    from that obtain line pad where "(line, pad) \<in> set (zip (rev picture) padding)" "l = line @ pad"
      by (auto simp: lines_def)
    moreover from this(1) have "line \<in> set picture" "pad \<in> set padding"
      using set_zip_leftD [of line pad "rev picture" padding]
        set_zip_rightD [of line pad "rev picture" padding] by simp_all
    ultimately show ?thesis by blast
  qed
  have line_len: "\<forall>l \<in> set lines. length l = w + p"
    using rows pads(2) parts by fastforce
  have pixel_len: "\<forall>px \<in> set (concat lines). length px = 3"
  proof
    fix px assume "px \<in> set (concat lines)"
    then obtain l where "l \<in> set lines" "px \<in> set l" by auto
    with parts obtain line pad where "line \<in> set picture" "pad \<in> set padding"
      "px \<in> set line \<or> px \<in> set pad" by fastforce
    with rows pads(2) show "length px = 3" by auto
  qed
  define c where "c = w + p"
  define m where "m = length picture * c"
  define plane where "plane = concat (concat lines)"
  have c: "0 < c" "\<forall>l \<in> set lines. length l = c"
    using wide line_len by (simp_all add: c_def)
  have n_pixels: "length (concat lines) = m"
    using length_concat_uniform [OF c(2)] n_lines by (simp add: m_def)
  have n_bytes: "length plane = m * 3"
    using length_concat_uniform [OF pixel_len] n_pixels by (simp add: plane_def)
  have "bottom_up_plane picture padding = plane"
    by (simp add: bottom_up_plane_def lines_def plane_def)
  moreover have "frame_linesize frame * frame_height frame = int (m * 3)"
    using frame(2,3) by (simp add: m_def c_def)
  ultimately have view: "getbuffer frame = Inr (plane @ behind, int (m * 3))"
    using frame(4) by (simp add: getbuffer_def)
  have "take (nat (int (m * 3))) (plane @ behind) = plane"
    using n_bytes by simp
  moreover have "int (m * 3) mod 3 = 0" "\<not> int (m * 3) < 0"
    by simp_all
  moreover have "chunks 3 plane = concat lines"
    unfolding plane_def using chunks_concat [OF pixel_len] by simp
  ultimately have items: "np_frombuffer (plane @ behind, int (m * 3)) = Inr (concat lines)"
    unfolding np_frombuffer_def by (simp only: prod.case simp_thms if_False)
  have cols: "frame_linesize frame div 3 = int c"
    using frame(3) by (simp add: c_def)
  have "int (length (concat lines)) mod int c = 0"
    unfolding n_pixels m_def by simp
  moreover have "\<not> int c \<le> 0"
    using c(1) by simp
  moreover have "chunks (nat (int c)) (concat lines) = lines"
    using chunks_concat [OF c(2,1)] by simp
  ultimately have reshape: "np_reshape_rows (concat lines) (int c) = Inr lines"
    unfolding np_reshape_rows_def by (simp only: simp_thms if_False)
  have slice: "map (py_slice_to (int w)) lines = rev picture"
  proof -
    have "map (py_slice_to (int w)) lines = map fst (zip (rev picture) padding)"
      using rows by (auto simp: lines_def py_slice_to_def dest!: set_zip_leftD)
    also have "\<dots> = rev picture"
      using pads(1) by simp
    finally show ?thesis .
  qed
  have "\<not> (2 \<le> length picture \<and> list_all (\<lambda>row. length row = 1) picture)"
  proof
    assume a: "2 \<le> length picture \<and> list_all (\<lambda>row. length row = 1) picture"
    then obtain line where "line \<in> set picture" by (cases picture) auto
    with a rows have "w = 1" by (auto simp: list_all_iff)
    with a columns show False by simp
  qed
  then have flat: "np_flat_bytes picture = Inr (concat (concat picture))"
    by (simp add: np_flat_bytes_def)
  show ?thesis
    unfolding plane_bytes_def view cols frame(1) sum.case items reshape slice
    by (simp add: flat)
qed


text \<open>Unfolding the library calls and the loops on the examples.\<close>

lemmas library_calls = av_read_frame_def av_seek_frame_def avcodec_send_packet_def
  avcodec_receive_frame_def avcodec_flush_buffers_def av_hwframe_transfer_data_def
  av_frame_copy_props_def sws_scale_frame_def AVERROR_EOF_def AVERROR_EAGAIN_def

lemmas loops = receive_loop.simps drain_loop.simps iter_packet.simps find_frame.simps
  iter_frame.simps fill_timetable.simps

lemma example_find:
  "find_frame 0 10 (drain_codec (snd (av_seek_frame example_ffmpeg 0 10))) =
     (Inr (Some (example_frame 10)),
      example_ffmpeg\<lparr>read_results := [], seek_results := [], send_results := [], receive_results := []\<rparr>)"
  by (simp add: example_ffmpeg_def example_packet_def example_frame_def drain_codec_def
      decode_def receive_frame_def library_calls loops)

lemma example_plane_top_down:
  "plane_bytes (example_frame 10) = Inr [7, 8, 9, 10, 11, 12, 1, 2, 3, 4, 5, 6]
   \<and> fst (frame_buffer example_stream 1) = Inr [7, 8, 9, 10, 11, 12, 1, 2, 3, 4, 5, 6]"
proof -
  have "plane_bytes (example_frame 10) = Inr (concat (concat [[[7, 8, 9], [10, 11, 12]], [[1, 2, 3], [4, 5, 6]]]))"
    by (rule plane_bytes_top_down [where w = 2 and p = 1 and behind = "[]"
          and padding = "[[[0, 0, 0]], [[0, 0, 0]]]"])
      (simp_all add: example_frame_def example_plane_def bottom_up_plane_def)
  then have p: "plane_bytes (example_frame 10) = Inr [7, 8, 9, 10, 11, 12, 1, 2, 3, 4, 5, 6]"
    by simp
  have "fst (frame_buffer example_stream 1) = plane_bytes (example_frame 10)"
    using example_find
    by (simp add: frame_buffer_def example_stream_def py_to_c_int_def timetable_at_def
        seek_keyframe_def export_frame_def rgb24_def sws_scale_frame_def av_frame_copy_props_def
        av_seek_frame_def example_ffmpeg_def example_frame_def)
  with p show ?thesis by simp
qed

text \<open>
  C9 at a frame one pixel wide and two lines high. Its plane holds the picture with the
  lines 4, 5, 6 (top) and 1, 2, 3 (bottom), bottom line first, each line padded to 6
  bytes. The bytes of the picture from top to bottom, without the padding, are
  4, 5, 6, 1, 2, 3; the numpy statements of \<open>frame_buffer\<close> raise \<^verbatim>\<open>ValueError\<close> instead,
  and so does \<open>frame_buffer\<close> for the index whose frame this is.
\<close>

theorem plane_bytes_one_column:
  "frame_plane (example_narrow_frame 0) =
     Some (bottom_up_plane [[[4, 5, 6]], [[1, 2, 3]]] [[[0, 0, 0]], [[0, 0, 0]]])
   \<and> frame_width (example_narrow_frame 0) = 1 \<and> frame_height (example_narrow_frame 0) = 2
   \<and> frame_linesize (example_narrow_frame 0) = 6
   \<and> concat (concat [[[4, 5, 6]], [[1, 2, 3 :: byte]]]) = [4, 5, 6, 1, 2, 3]
   \<and> plane_bytes (example_narrow_frame 0) = Inl ValueError
   \<and> export_frame (example_narrow\<lparr>ffmpeg := example_narrow_ffmpeg\<lparr>scale_results := [example_narrow_frame 0]\<rparr>\<rparr>)
        (example_narrow_frame 0)
       = (Inl ValueError, example_narrow\<lparr>ffmpeg := example_narrow_ffmpeg\<lparr>scale_results := []\<rparr>\<rparr>)"
proof -
  have "plane_bytes (example_narrow_frame 0) = Inl ValueError"
    by code_simp
  then show ?thesis
    by (simp add: example_narrow_frame_def bottom_up_plane_def export_frame_def example_narrow_def
        example_narrow_ffmpeg_def rgb24_def sws_scale_frame_def av_frame_copy_props_def)
qed

subsection \<open>Keyframes near an index\<close>

lemma keyframes_sorted: "sorted_wrt (<) (keyframes st)"
  by (simp add: keyframes_def sorted_wrt_map sorted_wrt_filter)

lemma keyframes_member: "k \<in> set (keyframes st) \<longleftrightarrow> is_keyframe st k"
  by (auto simp: keyframes_def is_keyframe_def intro: image_eqI [where x = "nat k"])

lemma keyframes_between_filter:
  "keyframes_between st lo hi = length (filter (\<lambda>k. lo < k \<and> k \<le> hi) (keyframes st))"
proof -
  have "filter (\<lambda>k. lo < k \<and> k \<le> hi) (keyframes st) =
      map int (filter (\<lambda>j. is_keyframe st (int j) \<and> lo < int j \<and> int j \<le> hi) [0..<length (timetable st)])"
    by (auto simp: keyframes_def filter_map comp_def is_keyframe_def intro!: arg_cong [where f = "map int"] filter_cong)
  then show ?thesis by (simp add: keyframes_between_def)
qed

lemma filter_above_nth:
  fixes xs :: "int list"
  assumes "sorted_wrt (<) xs" "i < length xs"
  shows "filter (\<lambda>x. xs ! i < x) xs = drop (Suc i) xs"
proof -
  have split: "xs = take i xs @ xs ! i # drop (Suc i) xs"
    using assms(2) by (rule id_take_nth_drop)
  with assms(1) have s: "sorted_wrt (<) (take i xs @ xs ! i # drop (Suc i) xs)" by simp
  then have low: "\<forall>x \<in> set (take i xs). x < xs ! i"
    and high: "\<forall>x \<in> set (drop (Suc i) xs). xs ! i < x"
    by (auto simp: sorted_wrt_append)
  have "filter (\<lambda>x. xs ! i < x) (take i xs @ xs ! i # drop (Suc i) xs) = drop (Suc i) xs"
    using low high by (auto simp: filter_empty_conv)
  with split show ?thesis by simp
qed

lemma filter_below_nth:
  fixes xs :: "int list"
  assumes "sorted_wrt (<) xs" "i < length xs"
  shows "filter (\<lambda>x. x < xs ! i) xs = take i xs"
proof -
  have split: "xs = take i xs @ xs ! i # drop (Suc i) xs"
    using assms(2) by (rule id_take_nth_drop)
  with assms(1) have s: "sorted_wrt (<) (take i xs @ xs ! i # drop (Suc i) xs)" by simp
  then have low: "\<forall>x \<in> set (take i xs). x < xs ! i"
    and high: "\<forall>x \<in> set (drop (Suc i) xs). xs ! i < x"
    by (auto simp: sorted_wrt_append)
  have "filter (\<lambda>x. x < xs ! i) (take i xs @ xs ! i # drop (Suc i) xs) = take i xs"
    using low high by (auto simp: filter_empty_conv)
  with split show ?thesis by simp
qed


lemma keyframes_upto:
  "keyframes_between st (- 1) index = length (filter (\<lambda>k. k \<le> index) (keyframes st))"
proof -
  have "filter (\<lambda>k. - 1 < k \<and> k \<le> index) (keyframes st) = filter (\<lambda>k. k \<le> index) (keyframes st)"
    by (rule filter_cong) (auto simp: keyframes_member is_keyframe_def)
  then show ?thesis by (simp add: keyframes_between_filter)
qed

lemma keyframes_after:
  "keyframes_between st index (int (length (timetable st))) = length (filter (\<lambda>k. k > index) (keyframes st))"
proof -
  have "filter (\<lambda>k. index < k \<and> k \<le> int (length (timetable st))) (keyframes st)
      = filter (\<lambda>k. k > index) (keyframes st)"
    by (rule filter_cong) (auto simp: keyframes_member is_keyframe_def)
  then show ?thesis by (simp add: keyframes_between_filter)
qed

lemma backward_keyframe:
  assumes "0 < n" "n \<le> int (length (filter (\<lambda>k. k \<le> index) (keyframes st)))"
  shows "nth_keyframe_backward st index n (py_index (filter (\<lambda>k. k \<le> index) (keyframes st)) (- n))"
proof -
  define backward where "backward = filter (\<lambda>k. k \<le> index) (keyframes st)"
  define i where "i = nat (int (length backward) - n)"
  have i: "i < length backward" "int (length backward) - int (Suc i) = n - 1"
    using assms by (simp_all add: i_def backward_def)
  have k: "py_index backward (- n) = backward ! i"
    using assms(1) by (simp add: py_index_def i_def)
  have sorted: "sorted_wrt (<) backward"
    unfolding backward_def by (rule sorted_wrt_filter) (rule keyframes_sorted)
  from i(1) have "backward ! i \<in> set backward" by simp
  then have member: "is_keyframe st (backward ! i)" "backward ! i \<le> index"
    by (simp_all add: backward_def keyframes_member)
  have "filter (\<lambda>j. backward ! i < j \<and> j \<le> index) (keyframes st) = filter (\<lambda>j. backward ! i < j) backward"
    by (simp add: backward_def conj_commute)
  also have "\<dots> = drop (Suc i) backward"
    using sorted i(1) by (rule filter_above_nth)
  finally have "int (keyframes_between st (backward ! i) index) = int (length backward - Suc i)"
    by (simp add: keyframes_between_filter)
  also have "\<dots> = n - 1"
    using i by simp
  finally show ?thesis
    using member k by (simp add: nth_keyframe_backward_def backward_def)
qed

lemma forward_keyframe:
  assumes "0 < n" "n \<le> int (length (filter (\<lambda>k. k > index) (keyframes st)))"
  shows "nth_keyframe_forward st index n (py_index (filter (\<lambda>k. k > index) (keyframes st)) (n - 1))"
proof -
  define forward where "forward = filter (\<lambda>k. k > index) (keyframes st)"
  define i where "i = nat (n - 1)"
  have i: "i < length forward" "int i = n - 1"
    using assms by (simp_all add: i_def forward_def)
  have k: "py_index forward (n - 1) = forward ! i"
    using assms(1) by (simp add: py_index_def i_def)
  have sorted: "sorted_wrt (<) forward"
    unfolding forward_def by (rule sorted_wrt_filter) (rule keyframes_sorted)
  from i(1) have "forward ! i \<in> set forward" by simp
  then have member: "is_keyframe st (forward ! i)" "index < forward ! i"
    by (simp_all add: forward_def keyframes_member)
  have "filter (\<lambda>j. index < j \<and> j \<le> forward ! i - 1) (keyframes st) = filter (\<lambda>j. j < forward ! i) forward"
    by (auto simp: forward_def intro: filter_cong)
  also have "\<dots> = take i forward"
    using sorted i(1) by (rule filter_below_nth)
  finally have "int (keyframes_between st index (forward ! i - 1)) = int i"
    using i(1) by (simp add: keyframes_between_filter)
  with i(2) show ?thesis
    using member k by (simp add: nth_keyframe_forward_def forward_def)
qed

text \<open>
  C5. With the offset 0 \<open>nearby_keyframe_buffer\<close> is \<open>frame_buffer\<close> of the index. With
  the offset \<open>- n\<close>, \<open>n\<close> at most the number of keyframes at indices up to \<open>index\<close>, it is
  \<open>frame_buffer\<close> of the \<open>n\<close>-th keyframe counting backward among the keyframes at or
  before \<open>index\<close>. With the offset \<open>n\<close>, \<open>n\<close> at most the number of keyframes behind
  \<open>index\<close>, it is \<open>frame_buffer\<close> of the \<open>n\<close>-th keyframe behind \<open>index\<close>.
\<close>

theorem nearby_keyframe_buffer_offsets:
  "nearby_keyframe_buffer st index 0 = frame_buffer st index
   \<and> (0 < n \<and> n \<le> int (keyframes_between st (- 1) index) \<longrightarrow>
        (\<exists>k. nearby_keyframe_buffer st index (- n) = frame_buffer st k \<and> nth_keyframe_backward st index n k))
   \<and> (0 < n \<and> n \<le> int (keyframes_between st index (int (length (timetable st)))) \<longrightarrow>
        (\<exists>k. nearby_keyframe_buffer st index n = frame_buffer st k \<and> nth_keyframe_forward st index n k))"
proof (intro conjI impI)
  show "nearby_keyframe_buffer st index 0 = frame_buffer st index"
    by (simp add: nearby_keyframe_buffer_def)
next
  assume "0 < n \<and> n \<le> int (keyframes_between st (- 1) index)"
  then have n: "0 < n" "n \<le> int (length (filter (\<lambda>k. k \<le> index) (keyframes st)))"
    by (simp_all add: keyframes_upto)
  then have "nearby_keyframe_buffer st index (- n) =
      frame_buffer st (py_index (filter (\<lambda>k. k \<le> index) (keyframes st)) (- n))"
    by (simp add: nearby_keyframe_buffer_def Let_def)
  with backward_keyframe [OF n]
  show "\<exists>k. nearby_keyframe_buffer st index (- n) = frame_buffer st k \<and> nth_keyframe_backward st index n k"
    by blast
next
  assume "0 < n \<and> n \<le> int (keyframes_between st index (int (length (timetable st))))"
  then have n: "0 < n" "n \<le> int (length (filter (\<lambda>k. k > index) (keyframes st)))"
    by (simp_all add: keyframes_after)
  then have "nearby_keyframe_buffer st index n =
      frame_buffer st (py_index (filter (\<lambda>k. k > index) (keyframes st)) (n - 1))"
    by (simp add: nearby_keyframe_buffer_def Let_def)
  with forward_keyframe [OF n]
  show "\<exists>k. nearby_keyframe_buffer st index n = frame_buffer st k \<and> nth_keyframe_forward st index n k"
    by blast
qed


lemma example_gops_counts:
  "keyframes_between example_gops (- 1) 3 = 2" "keyframes_between example_gops 3 6 = 1"
  "nth_keyframe_backward example_gops 3 2 0" "nth_keyframe_forward example_gops 3 1 5"
  "length (timetable example_gops) = 6"
  by code_simp+

lemma example_gops_nearby:
  "nearby_keyframe_buffer example_gops 3 (- 2) = frame_buffer example_gops 0"
  "nearby_keyframe_buffer example_gops 3 (- 1) = frame_buffer example_gops 3"
  "nearby_keyframe_buffer example_gops 3 1 = frame_buffer example_gops 5"
  by (simp_all add: nearby_keyframe_buffer_def keyframes_def example_gops_def py_index_def upt_rec)

theorem nearby_keyframe_buffer_offsets_witness:
  "(0 < (2::int) \<and> 2 \<le> int (keyframes_between example_gops (- 1) 3))
   \<and> (\<exists>k. nearby_keyframe_buffer example_gops 3 (- 2) = frame_buffer example_gops k
          \<and> nth_keyframe_backward example_gops 3 2 k)
   \<and> nearby_keyframe_buffer example_gops 3 (- 2) = frame_buffer example_gops 0
   \<and> nth_keyframe_backward example_gops 3 2 0
   \<and> nearby_keyframe_buffer example_gops 3 (- 1) = frame_buffer example_gops 3
   \<and> (0 < (1::int) \<and> 1 \<le> int (keyframes_between example_gops 3 (int (length (timetable example_gops)))))
   \<and> (\<exists>k. nearby_keyframe_buffer example_gops 3 1 = frame_buffer example_gops k
          \<and> nth_keyframe_forward example_gops 3 1 k)
   \<and> nearby_keyframe_buffer example_gops 3 1 = frame_buffer example_gops 5
   \<and> nth_keyframe_forward example_gops 3 1 5"
  using nearby_keyframe_buffer_offsets [of example_gops 3 2]
    nearby_keyframe_buffer_offsets [of example_gops 3 1]
  by (simp add: example_gops_counts example_gops_nearby)

subsection \<open>Missing frames\<close>

lemma find_frame_exhausted:
  "iter_frame best L = (Inr frames, L') \<Longrightarrow> \<forall>frame \<in> set frames. frame_pts frame \<noteq> target \<Longrightarrow>
     find_frame best target L = (Inr None, L')"
proof (induction best L arbitrary: frames L' rule: iter_frame.induct)
  case (1 best L)
  obtain x L1 where ip: "iter_packet best L = (x, L1)"
    by (cases "iter_packet best L") auto
  show ?case
  proof (cases x)
    case None
    with ip "1.prems"(1) show ?thesis
      by (simp add: iter_frame.simps [of best L] find_frame.simps [of best target L])
  next
    case (Some packet)
    obtain y L2 where d: "decode L1 packet = (y, L2)"
      by (cases "decode L1 packet") auto
    show ?thesis
    proof (cases y)
      case (Inl e)
      with d Some ip "1.prems"(1) show ?thesis
        by (simp add: iter_frame.simps [of best L])
    next
      case (Inr fs)
      obtain z L3 where r: "iter_frame best L2 = (z, L3)"
        by (cases "iter_frame best L2") auto
      show ?thesis
      proof (cases z)
        case (Inl e)
        with r Inr d Some ip "1.prems"(1) show ?thesis
          by (simp add: iter_frame.simps [of best L])
      next
        case z: (Inr rest_frames)
        with r Inr d Some ip "1.prems"(1) have eq: "frames = fs @ rest_frames" "L' = L3"
          by (simp_all add: iter_frame.simps [of best L])
        with "1.prems"(2) have none: "find (\<lambda>frame. frame_pts frame = target) fs = None"
          and rest: "\<forall>frame \<in> set rest_frames. frame_pts frame \<noteq> target"
          by (auto simp: find_None_iff)
        from r z have "iter_frame best L2 = (Inr rest_frames, L3)" by simp
        from "1.IH" [OF ip [symmetric] Some d [symmetric] Inr this rest]
        have "find_frame best target L2 = (Inr None, L3)" .
        with none Inr d Some ip eq(2) show ?thesis
          by (simp add: find_frame.simps [of best target L])
      qed
    qed
  qed
qed

text \<open>
  C4. (1) For an index in range whose seek succeeds, when decoding from there to the end
  of the stream raises nothing and gives no frame with the timestamp of the index,
  \<open>frame_buffer\<close> returns \<open>width * height * 3\<close> zero bytes and no error. (2) With an
  offset beyond the keyframes before, or behind, the index, \<open>nearby_keyframe_buffer\<close>
  returns the same zero bytes and no error, and leaves the stream as it was.
\<close>

theorem missing_data_black_frame:
  assumes "0 \<le> width st" "0 \<le> height st"
  shows "(0 \<le> index \<and> index < nb_frames st \<and> index < 2 ^ 31 \<and> index < int (length (timetable st)) \<and>
       seek_keyframe st (pts (timetable st ! nat index)) = (Inr (), st') \<and>
       iter_frame (best_stream_index st') (ffmpeg st') = (Inr frames, L') \<and>
       (\<forall>frame \<in> set frames. frame_pts frame \<noteq> pts (timetable st ! nat index)) \<longrightarrow>
         frame_buffer st index = (Inr (replicate (nat (width st * height st * 3)) 0), st'\<lparr>ffmpeg := L'\<rparr>))
    \<and> (int (keyframes_between st (- 1) index) < n \<longrightarrow>
         nearby_keyframe_buffer st index (- n) = (Inr (replicate (nat (width st * height st * 3)) 0), st))
    \<and> (int (keyframes_between st index (int (length (timetable st)))) < n \<longrightarrow>
         nearby_keyframe_buffer st index n = (Inr (replicate (nat (width st * height st * 3)) 0), st))"
proof (intro conjI impI)
  from assms have size: "\<not> width st * height st * 3 < 0"
    by (simp add: not_less)
  then have black: "black_frame_buffer st = Inr (replicate (nat (width st * height st * 3)) 0)"
    by (simp add: black_frame_buffer_def)
  {
    assume a: "0 \<le> index \<and> index < nb_frames st \<and> index < 2 ^ 31 \<and> index < int (length (timetable st)) \<and>
       seek_keyframe st (pts (timetable st ! nat index)) = (Inr (), st') \<and>
       iter_frame (best_stream_index st') (ffmpeg st') = (Inr frames, L') \<and>
       (\<forall>frame \<in> set frames. frame_pts frame \<noteq> pts (timetable st ! nat index))"
    then have c: "py_to_c_int index = Inr index"
      and t: "timetable_at st index = Inr (timetable st ! nat index)"
      by (simp_all add: py_to_c_int_def timetable_at_def)
    from a have "find_frame (best_stream_index st') (pts (timetable st ! nat index)) (ffmpeg st') = (Inr None, L')"
      by (intro find_frame_exhausted [of _ _ frames]) simp_all
    moreover from a have "width st' = width st" "height st' = height st"
      by (auto simp: seek_keyframe_def split: prod.splits if_splits)
    ultimately show "frame_buffer st index = (Inr (replicate (nat (width st * height st * 3)) 0), st'\<lparr>ffmpeg := L'\<rparr>)"
      using a c t size by (simp add: frame_buffer_def black_frame_buffer_def)
  }
  {
    assume "int (keyframes_between st (- 1) index) < n"
    then have "\<not> \<bar>- n\<bar> \<le> int (length (filter (\<lambda>k. k \<le> index) (keyframes st)))" "\<not> 0 < - n" "- n \<noteq> 0"
      by (simp_all add: keyframes_upto)
    with black show "nearby_keyframe_buffer st index (- n) = (Inr (replicate (nat (width st * height st * 3)) 0), st)"
      by (simp add: nearby_keyframe_buffer_def Let_def)
  }
  {
    assume "int (keyframes_between st index (int (length (timetable st)))) < n"
    then have "\<not> n \<le> int (length (filter (\<lambda>k. k > index) (keyframes st)))" "\<not> n < 0" "n \<noteq> 0"
      by (simp_all add: keyframes_after)
    with black show "nearby_keyframe_buffer st index n = (Inr (replicate (nat (width st * height st * 3)) 0), st)"
      by (simp add: nearby_keyframe_buffer_def Let_def)
  }
qed


lemma example_missing_seek:
  "seek_keyframe example_missing 10 = (Inr (), example_missing\<lparr>ffmpeg := drain_codec (snd (av_seek_frame (ffmpeg example_missing) 0 10))\<rparr>)"
  by (simp add: seek_keyframe_def example_missing_def example_stream_def example_ffmpeg_def av_seek_frame_def)

lemma example_missing_frames:
  "iter_frame 0 (drain_codec (snd (av_seek_frame (ffmpeg example_missing) 0 10)))
     = (Inr [example_frame 0, example_frame 20], example_drained)"
  by (simp add: example_missing_def example_stream_def example_ffmpeg_def example_packet_def
      example_drained_def drain_codec_def decode_def receive_frame_def library_calls loops)

theorem missing_data_black_frame_witness:
  "frame_buffer example_missing 1 = (Inr [0, 0, 0, 0, 0, 0, 0, 0, 0, 0, 0, 0], example_missing\<lparr>ffmpeg := example_drained\<rparr>)
   \<and> nearby_keyframe_buffer example_gops 3 (- 3) = (Inr [0, 0, 0, 0, 0, 0, 0, 0, 0, 0, 0, 0], example_gops)
   \<and> nearby_keyframe_buffer example_gops 3 2 = (Inr [0, 0, 0, 0, 0, 0, 0, 0, 0, 0, 0, 0], example_gops)"
proof -
  have dims: "0 \<le> width example_missing" "0 \<le> height example_missing"
    "0 \<le> width example_gops" "0 \<le> height example_gops"
    by (simp_all add: example_missing_def example_stream_def example_gops_def)
  have zeros: "replicate (nat (2 * 2 * 3)) (0::byte) = [0, 0, 0, 0, 0, 0, 0, 0, 0, 0, 0, 0]"
    by code_simp
  have "frame_buffer example_missing 1 = (Inr (replicate (nat (2 * 2 * 3)) 0), example_missing\<lparr>ffmpeg := example_drained\<rparr>)"
    using missing_data_black_frame [OF dims(1,2), of 1
        "example_missing\<lparr>ffmpeg := drain_codec (snd (av_seek_frame (ffmpeg example_missing) 0 10))\<rparr>"
        "[example_frame 0, example_frame 20]" example_drained]
      example_missing_seek example_missing_frames
    by (simp add: example_missing_def example_stream_def example_frame_def)
  moreover have "nearby_keyframe_buffer example_gops 3 (- 3) = (Inr (replicate (nat (2 * 2 * 3)) 0), example_gops)"
    using missing_data_black_frame [OF dims(3,4), where index = 3 and n = 3]
    by (simp add: example_gops_counts) (simp add: example_gops_def)
  moreover have "nearby_keyframe_buffer example_gops 3 2 = (Inr (replicate (nat (2 * 2 * 3)) 0), example_gops)"
    using missing_data_black_frame [OF dims(3,4), where index = 3 and n = 2]
    by (simp add: example_gops_counts) (simp add: example_gops_def)
  ultimately show ?thesis
    unfolding zeros by simp
qed

subsection \<open>The length of the bytes of a frame\<close>

lemma length_chunks: "length (chunks n xs) = length xs div n"
  by (simp add: chunks_def)

lemma chunks_uniform:
  assumes "0 < n" "ys \<in> set (chunks n xs)"
  shows "length ys = n"
proof -
  from assms(2) obtain r where r: "r < length xs div n" "ys = take n (drop (r * n) xs)"
    by (auto simp: chunks_def)
  from r(1) have "Suc r \<le> length xs div n" by simp
  then have "Suc r * n \<le> length xs div n * n" by (rule mult_le_mono1)
  also have "\<dots> \<le> length xs" by simp
  finally have "n \<le> length xs - r * n" by simp
  with r(2) show ?thesis by simp
qed

lemma plane_bytes_length:
  assumes "rgb24_frame_of st frame" "plane_bytes frame = Inr bytes"
  shows "int (length bytes) = width st * height st * 3"
proof -
  from assms(1) obtain buf where buf: "frame_plane frame = Some buf"
    "frame_linesize frame * frame_height frame \<le> int (length buf)"
    by (auto simp: rgb24_frame_of_def split: option.splits)
  define c where "c = nat (frame_linesize frame div 3)"
  define w where "w = nat (frame_width frame)"
  from assms(1) have geometry: "frame_linesize frame = 3 * int c" "frame_width frame = int w" "w \<le> c"
    by (auto simp: rgb24_frame_of_def c_def w_def)
  define len where "len = frame_linesize frame * frame_height frame"
  from assms(2) buf(1) have ok: "\<not> (len < 0 \<or> len mod 3 \<noteq> 0)"
    by (auto simp: plane_bytes_def getbuffer_def np_frombuffer_def len_def split: if_splits)
  define pixels where "pixels = chunks 3 (take (nat len) buf)"
  have items: "np_frombuffer (buf, len) = Inr pixels"
    using ok by (simp add: np_frombuffer_def pixels_def)
  from assms(2) buf(1) items have shape: "\<not> (int c \<le> 0 \<or> int (length pixels) mod int c \<noteq> 0)"
    by (auto simp: plane_bytes_def getbuffer_def np_reshape_rows_def len_def geometry(1)
        split: if_splits)
  then have c: "0 < c" by simp
  define h where "h = nat (frame_height frame)"
  have h: "frame_height frame = int h"
  proof -
    from ok have "0 \<le> 3 * int c * frame_height frame"
      by (simp add: len_def geometry(1))
    with c have "0 \<le> frame_height frame"
      by (simp add: zero_le_mult_iff)
    then show ?thesis by (simp add: h_def)
  qed
  have len: "nat len = c * h * 3"
    by (simp add: len_def geometry(1) h nat_mult_distrib)
  have "length (take (nat len) buf) = c * h * 3"
    using buf(2) len unfolding len_def [symmetric] by simp
  then have n_pixels: "length pixels = h * c"
    by (simp add: pixels_def length_chunks)
  define rows where "rows = chunks c pixels"
  have reshape: "np_reshape_rows pixels (int c) = Inr rows"
    using shape by (simp add: np_reshape_rows_def rows_def)
  have n_rows: "length rows = h"
    using c by (simp add: rows_def length_chunks n_pixels)
  have "np_flat_bytes (rev (map (py_slice_to (int w)) rows)) = Inr bytes"
    using assms(2) buf(1) items reshape
    by (simp add: plane_bytes_def getbuffer_def len_def geometry(1,2))
  then have bytes: "bytes = concat (concat (rev (map (py_slice_to (int w)) rows)))"
    by (auto simp: np_flat_bytes_def split: if_splits)
  have row_len: "\<forall>row \<in> set (rev (map (py_slice_to (int w)) rows)). length row = w"
    using chunks_uniform [OF c, of _ pixels] geometry(3)
    by (auto simp: rows_def py_slice_to_def)
  have pixel_len: "\<forall>pixel \<in> set (concat (rev (map (py_slice_to (int w)) rows))). length pixel = 3"
  proof
    fix pixel assume "pixel \<in> set (concat (rev (map (py_slice_to (int w)) rows)))"
    then obtain row where "row \<in> set rows" "pixel \<in> set (py_slice_to (int w) row)" by auto
    then have "pixel \<in> set row" by (auto simp: py_slice_to_def dest: in_set_takeD)
    with \<open>row \<in> set rows\<close> have "pixel \<in> set pixels"
      by (auto simp: rows_def chunks_def dest!: in_set_takeD in_set_dropD)
    then show "length pixel = 3"
      unfolding pixels_def by (intro chunks_uniform [of 3 _ "take (nat len) buf"]) simp_all
  qed
  have "length (concat (rev (map (py_slice_to (int w)) rows))) = h * w"
    unfolding length_concat_uniform [OF row_len] by (simp add: n_rows)
  then have "length bytes = h * w * 3"
    unfolding bytes length_concat_uniform [OF pixel_len] by simp
  with assms(1) geometry(2) h show ?thesis
    by (simp add: rgb24_frame_of_def)
qed


subsection \<open>Seeking and decoding do not convert frames\<close>

lemma receive_loop_scale_results:
  "scale_results (snd (receive_loop L frames)) = scale_results L"
proof (induction L frames rule: receive_loop.induct)
  case (1 L frames)
  obtain res f L1 where r: "avcodec_receive_frame L = (res, f, L1)"
    by (cases "avcodec_receive_frame L") auto
  then have same: "scale_results L1 = scale_results L"
    by (auto simp: avcodec_receive_frame_def split: list.splits)
  show ?case
  proof (cases "res = 0")
    case True
    with r have rf: "receive_frame L = (Inr (Some f), L1)"
      by (simp add: receive_frame_def)
    from "1.IH" [OF rf [symmetric] refl refl] rf same show ?thesis
      by (simp add: receive_loop.simps [of L frames])
  next
    case False
    with r same show ?thesis
      by (simp add: receive_loop.simps [of L frames] receive_frame_def)
  qed
qed

lemma decode_scale_results:
  "scale_results (snd (decode L packet)) = scale_results L"
  by (auto simp: decode_def avcodec_send_packet_def receive_loop_scale_results split: list.splits)

lemma drain_loop_scale_results:
  "scale_results (drain_loop L) = scale_results L"
proof (induction L rule: drain_loop.induct)
  case (1 L)
  obtain res f L1 where r: "avcodec_receive_frame L = (res, f, L1)"
    by (cases "avcodec_receive_frame L") auto
  then have same: "scale_results L1 = scale_results L"
    by (auto simp: avcodec_receive_frame_def split: list.splits)
  show ?case
  proof (cases "res \<noteq> AVERROR_EOF")
    case True
    from "1.IH" [OF r [symmetric] refl True] r True same show ?thesis
      by (simp add: drain_loop.simps [of L])
  next
    case False
    with r same show ?thesis
      by (simp add: drain_loop.simps [of L])
  qed
qed

lemma drain_codec_scale_results:
  "scale_results (drain_codec L) = scale_results L"
  by (auto simp: drain_codec_def avcodec_send_packet_def avcodec_flush_buffers_def
      drain_loop_scale_results split: list.splits)

lemma iter_packet_scale_results:
  "scale_results (snd (iter_packet best L)) = scale_results L"
proof (induction best L rule: iter_packet.induct)
  case (1 best L)
  obtain res p L1 where r: "av_read_frame L = (res, p, L1)"
    by (cases "av_read_frame L") auto
  then have same: "scale_results L1 = scale_results L"
    by (auto simp: av_read_frame_def split: list.splits)
  show ?case
  proof (cases "res = 0 \<and> pkt_stream_index p \<noteq> best")
    case True
    then have "res = 0" "pkt_stream_index p \<noteq> best" by simp_all
    from "1.IH" [OF r [symmetric] refl this] r True same show ?thesis
      by (simp add: iter_packet.simps [of best L])
  next
    case False
    with r same show ?thesis
      by (auto simp: iter_packet.simps [of best L] drain_codec_scale_results)
  qed
qed

lemma find_frame_scale_results:
  "scale_results (snd (find_frame best target L)) = scale_results L"
proof (induction best target L rule: find_frame.induct)
  case (1 best target L)
  obtain x L1 where ip: "iter_packet best L = (x, L1)"
    by (cases "iter_packet best L") auto
  then have s1: "scale_results L1 = scale_results L"
    using iter_packet_scale_results [of best L] by simp
  show ?case
  proof (cases x)
    case None
    with ip s1 show ?thesis
      by (simp add: find_frame.simps [of best target L])
  next
    case (Some packet)
    obtain y L2 where d: "decode L1 packet = (y, L2)"
      by (cases "decode L1 packet") auto
    then have s2: "scale_results L2 = scale_results L"
      using decode_scale_results [of L1 packet] s1 by simp
    show ?thesis
    proof (cases y)
      case (Inl e)
      with d Some ip s2 show ?thesis
        by (simp add: find_frame.simps [of best target L])
    next
      case (Inr frames)
      show ?thesis
      proof (cases "find (\<lambda>frame. frame_pts frame = target) frames")
        case None
        from "1.IH" [OF ip [symmetric] Some d [symmetric] Inr None] None Inr d Some ip s2
        show ?thesis
          by (simp add: find_frame.simps [of best target L])
      next
        case found: (Some frame)
        with Inr d Some ip s2 show ?thesis
          by (simp add: find_frame.simps [of best target L])
      qed
    qed
  qed
qed

lemma export_frame_length:
  assumes "\<forall>f \<in> set (scale_results (ffmpeg st)). rgb24_frame_of st f"
    and "export_frame st frame = (Inr bytes, st')"
  shows "int (length bytes) = width st * height st * 3"
proof -
  have converted: "int (length bytes) = width st * height st * 3"
    if "scale_results L = scale_results (ffmpeg st)" "plane_bytes (fst (rgb24 L x)) = Inr bytes" for L x
  proof (cases "scale_results L")
    case Nil
    with that(2) show ?thesis
      by (simp add: rgb24_def sws_scale_frame_def av_frame_copy_props_def av_frame_alloc_def
          plane_bytes_def getbuffer_def)
  next
    case (Cons f rest)
    with that(1) assms(1) have "rgb24_frame_of st f" by (metis list.set_intros(1))
    moreover have "rgb24_frame_of st (f\<lparr>frame_pts := t\<rparr>) = rgb24_frame_of st f" for t
      by (simp add: rgb24_frame_of_def cong: option.case_cong)
    ultimately have "rgb24_frame_of st (fst (rgb24 L x))"
      using Cons by (simp add: rgb24_def sws_scale_frame_def)
    then show ?thesis using that(2) by (rule plane_bytes_length)
  qed
  show ?thesis
  proof (cases "enabled_hardware st")
    case False
    with assms(2) have "plane_bytes (fst (rgb24 (ffmpeg st) frame)) = Inr bytes"
      by (auto simp: export_frame_def split: prod.splits)
    with converted [of "ffmpeg st" frame] show ?thesis by simp
  next
    case True
    obtain res frame_software L1 where t: "av_hwframe_transfer_data (ffmpeg st) av_frame_alloc frame = (res, frame_software, L1)"
      by (cases "av_hwframe_transfer_data (ffmpeg st) av_frame_alloc frame") auto
    then have "scale_results L1 = scale_results (ffmpeg st)"
      by (auto simp: av_hwframe_transfer_data_def split: list.splits)
    moreover from True t assms(2)
    have "plane_bytes (fst (rgb24 L1 (av_frame_copy_props frame_software frame))) = Inr bytes"
      by (auto simp: export_frame_def split: prod.splits if_splits)
    ultimately show ?thesis by (rule converted)
  qed
qed

text \<open>
  With the converted frames as the module takes them from \<^verbatim>\<open>sws_scale_frame\<close>, the bytes
  that \<open>frame_buffer\<close> returns, when it returns bytes, are \<open>width * height * 3\<close> many,
  for the frame found as for the black frame.
\<close>

lemma frame_buffer_length:
  assumes "\<forall>frame \<in> set (scale_results (ffmpeg st)). rgb24_frame_of st frame"
    and "frame_buffer st index = (Inr bytes, st')"
  shows "int (length bytes) = width st * height st * 3"
proof -
  from assms(2) obtain entry where c: "py_to_c_int index = Inr index"
    and valid: "\<not> (index < 0 \<or> index \<ge> nb_frames st)"
    and entry: "timetable_at st index = Inr entry"
    by (auto simp: frame_buffer_def py_to_c_int_def split: sum.splits if_splits)
  obtain r st1 where sk: "seek_keyframe st (pts entry) = (r, st1)"
    by (cases "seek_keyframe st (pts entry)") auto
  with assms(2) c valid entry obtain u where r: "r = Inr u"
    by (cases r) (auto simp: frame_buffer_def)
  from sk r have st1: "width st1 = width st" "height st1 = height st"
    "scale_results (ffmpeg st1) = scale_results (ffmpeg st)"
    by (auto simp: seek_keyframe_def av_seek_frame_def drain_codec_scale_results
        split: prod.splits if_splits list.splits)
  obtain y L2 where ff: "find_frame (best_stream_index st1) (pts entry) (ffmpeg st1) = (y, L2)"
    by (cases "find_frame (best_stream_index st1) (pts entry) (ffmpeg st1)") auto
  then have L2: "scale_results L2 = scale_results (ffmpeg st)"
    using find_frame_scale_results [of "best_stream_index st1" "pts entry" "ffmpeg st1"] st1(3)
    by simp
  from assms(2) c valid entry sk r ff obtain found where y: "y = Inr found"
    by (cases y) (auto simp: frame_buffer_def)
  show ?thesis
  proof (cases found)
    case None
    with assms(2) c valid entry sk r ff y have "black_frame_buffer st1 = Inr bytes"
      by (simp add: frame_buffer_def)
    with st1 show ?thesis
      by (auto simp: black_frame_buffer_def split: if_splits)
  next
    case (Some frame)
    with assms(2) c valid entry sk r ff y
    have "export_frame (st1\<lparr>ffmpeg := L2\<rparr>) frame = (Inr bytes, st')"
      by (simp add: frame_buffer_def)
    moreover have "rgb24_frame_of (st1\<lparr>ffmpeg := L2\<rparr>) f = rgb24_frame_of st f" for f
      using st1(1,2) by (simp add: rgb24_frame_of_def)
    then have "\<forall>f \<in> set (scale_results (ffmpeg (st1\<lparr>ffmpeg := L2\<rparr>))). rgb24_frame_of (st1\<lparr>ffmpeg := L2\<rparr>) f"
      using assms(1) L2 by simp
    ultimately have "int (length bytes) = width (st1\<lparr>ffmpeg := L2\<rparr>) * height (st1\<lparr>ffmpeg := L2\<rparr>) * 3"
      by (rule export_frame_length [rotated])
    with st1 show ?thesis by simp
  qed
qed

lemma example_plane_bytes:
  "plane_bytes (example_frame 10) = Inr [7, 8, 9, 10, 11, 12, 1, 2, 3, 4, 5, 6]"
  by code_simp

lemma example_found:
  "fst (frame_buffer example_stream 1) = Inr [7, 8, 9, 10, 11, 12, 1, 2, 3, 4, 5, 6]"
proof -
  have "fst (frame_buffer example_stream 1) = plane_bytes (example_frame 10)"
    using example_find
    by (simp add: frame_buffer_def example_stream_def py_to_c_int_def timetable_at_def
        seek_keyframe_def export_frame_def rgb24_def sws_scale_frame_def av_frame_copy_props_def
        av_seek_frame_def example_ffmpeg_def example_frame_def)
  then show ?thesis by (simp add: example_plane_bytes)
qed

lemma example_not_found:
  "fst (frame_buffer example_missing 1) = Inr [0, 0, 0, 0, 0, 0, 0, 0, 0, 0, 0, 0]"
proof -
  have "find_frame 0 10 (drain_codec (snd (av_seek_frame (ffmpeg example_missing) 0 10)))
      = (Inr None, example_drained)"
    using example_missing_frames by (rule find_frame_exhausted) (simp add: example_frame_def)
  moreover have "replicate (nat (2 * 2 * 3)) (0::byte) = [0, 0, 0, 0, 0, 0, 0, 0, 0, 0, 0, 0]"
    by code_simp
  moreover have "timetable_at example_missing 1 = Inr \<lparr>pts = 10, dts = 20, flags = 0\<rparr>"
    "nb_frames example_missing = 3" "best_stream_index example_missing = 0"
    "width example_missing = 2" "height example_missing = 2"
    by (simp_all add: timetable_at_def example_missing_def example_stream_def)
  ultimately show ?thesis
    using example_missing_seek
    by (simp add: frame_buffer_def py_to_c_int_def black_frame_buffer_def)
qed

lemma example_frame_buffer_lengths:
  "rgb24_frame_of example_stream (example_frame 10)
   \<and> fst (frame_buffer example_stream 1) = Inr [7, 8, 9, 10, 11, 12, 1, 2, 3, 4, 5, 6]
   \<and> int (length [7, 8, 9, 10, 11, 12, 1, 2, 3, 4, 5, 6 :: byte]) = width example_stream * height example_stream * 3
   \<and> fst (frame_buffer example_missing 1) = Inr [0, 0, 0, 0, 0, 0, 0, 0, 0, 0, 0, 0]
   \<and> int (length [0, 0, 0, 0, 0, 0, 0, 0, 0, 0, 0, 0 :: byte]) = width example_missing * height example_missing * 3"
proof -
  have fit: "\<forall>frame \<in> set (scale_results (ffmpeg example_stream)). rgb24_frame_of example_stream frame"
    "\<forall>frame \<in> set (scale_results (ffmpeg example_missing)). rgb24_frame_of example_missing frame"
    by (simp_all add: example_stream_def example_missing_def example_ffmpeg_def example_frame_def
        example_plane_def rgb24_frame_of_def)
  have found: "frame_buffer example_stream 1 =
      (Inr [7, 8, 9, 10, 11, 12, 1, 2, 3, 4, 5, 6], snd (frame_buffer example_stream 1))"
    using example_found by (cases "frame_buffer example_stream 1") simp
  have missing: "frame_buffer example_missing 1 =
      (Inr [0, 0, 0, 0, 0, 0, 0, 0, 0, 0, 0, 0], snd (frame_buffer example_missing 1))"
    using example_not_found by (cases "frame_buffer example_missing 1") simp
  have "rgb24_frame_of example_stream (example_frame 10)"
    using fit(1) by (simp add: example_stream_def example_ffmpeg_def)
  with frame_buffer_length [OF fit(1) found] frame_buffer_length [OF fit(2) missing]
    example_found example_not_found
  show ?thesis by blast
qed

lemma example_narrow_find:
  "find_frame 0 0 (drain_codec (snd (av_seek_frame example_narrow_ffmpeg 0 0))) =
     (Inr (Some (example_narrow_frame 0)),
      example_narrow_ffmpeg\<lparr>read_results := [(0, example_packet 10 10 0)], seek_results := [],
        send_results := [0], receive_results := [(0, example_narrow_frame 10)]\<rparr>)"
  by (simp add: example_narrow_ffmpeg_def example_packet_def example_narrow_frame_def drain_codec_def
      decode_def receive_frame_def library_calls loops)

text \<open>
  C1 at a stream one pixel wide and two lines high. The index 0 is valid, the seek
  succeeds, decoding gives the frame with the timestamp of the index, and the converted
  frame is as the module takes it from \<^verbatim>\<open>sws_scale_frame\<close>: \<open>frame_buffer\<close> raises
  \<^verbatim>\<open>ValueError\<close> and returns no bytes, where \<open>width * height * 3\<close> is 6.
\<close>

theorem frame_buffer_one_column:
  "nb_frames example_narrow = 2 \<and> width example_narrow * height example_narrow * 3 = 6
   \<and> rgb24_frame_of example_narrow (example_narrow_frame 0)
   \<and> fst (seek_keyframe example_narrow 0) = Inr ()
   \<and> fst (find_frame 0 0 (ffmpeg (snd (seek_keyframe example_narrow 0)))) = Inr (Some (example_narrow_frame 0))
   \<and> fst (frame_buffer example_narrow 0) = Inl ValueError"
proof -
  have seek: "seek_keyframe example_narrow 0 =
      (Inr (), example_narrow\<lparr>ffmpeg := drain_codec (snd (av_seek_frame example_narrow_ffmpeg 0 0))\<rparr>)"
    by (simp add: seek_keyframe_def example_narrow_def example_narrow_ffmpeg_def av_seek_frame_def)
  have bytes: "plane_bytes (example_narrow_frame 0) = Inl ValueError"
    by code_simp
  have entry: "timetable_at example_narrow 0 = Inr \<lparr>pts = 0, dts = 0, flags = 1\<rparr>"
    "nb_frames example_narrow = 2" "best_stream_index example_narrow = 0"
    "width example_narrow = 1" "height example_narrow = 2" "\<not> enabled_hardware example_narrow"
    by (simp_all add: timetable_at_def example_narrow_def)
  have fit: "rgb24_frame_of example_narrow (example_narrow_frame 0)"
    by (simp add: rgb24_frame_of_def example_narrow_def example_narrow_frame_def)
  have "fst (frame_buffer example_narrow 0) = plane_bytes (example_narrow_frame 0)"
    using seek example_narrow_find entry
    by (simp add: frame_buffer_def py_to_c_int_def export_frame_def rgb24_def sws_scale_frame_def
        av_frame_copy_props_def example_narrow_ffmpeg_def example_narrow_frame_def)
  with bytes seek example_narrow_find entry fit show ?thesis
    by simp
qed

subsection \<open>The timetable\<close>

lemma fill_timetable_length:
  "fill_timetable best L i table = (Inr table', L') \<Longrightarrow> i \<le> length table \<Longrightarrow>
     length table' = length table \<and> i + length (fst (iter_packet_list best L)) \<le> length table"
proof (induction best L i table rule: fill_timetable.induct)
  case (1 best L i table)
  obtain x L1 where ip: "iter_packet best L = (x, L1)"
    by (cases "iter_packet best L") auto
  show ?case
  proof (cases x)
    case None
    with ip "1.prems" show ?thesis
      by (simp add: fill_timetable.simps [of best L i table] iter_packet_list.simps [of best L])
  next
    case (Some packet)
    with ip "1.prems" have i: "i < length table"
      by (auto simp: fill_timetable.simps [of best L i table] split: if_splits)
    let ?table = "table[i := \<lparr>pts = pkt_pts packet, dts = pkt_dts packet,
      flags = (if pkt_flags packet AND AV_PKT_FLAG_KEY \<noteq> 0 then 1 else 0)\<rparr>]"
    from Some ip "1.prems" i have "fill_timetable best L1 (Suc i) ?table = (Inr table', L')"
      by (simp add: fill_timetable.simps [of best L i table])
    from "1.IH" [OF ip [symmetric] Some i this] i
    have "length table' = length table \<and> Suc i + length (fst (iter_packet_list best L1)) \<le> length table"
      by simp
    moreover have "length (fst (iter_packet_list best L)) = Suc (length (fst (iter_packet_list best L1)))"
      using Some ip by (simp add: iter_packet_list.simps [of best L] split: prod.splits)
    ultimately show ?thesis by simp
  qed
qed

lemma np_sort_pts_sorted: "sorted (map pts (np_sort_pts table))"
proof -
  have "sorted (map (\<lambda>entry. (pts entry, dts entry, flags entry)) (np_sort_pts table))"
    by (simp add: np_sort_pts_def)
  then have "sorted_wrt (\<lambda>x y. (pts x, dts x, flags x) \<le> (pts y, dts y, flags y)) (np_sort_pts table)"
    by (simp add: sorted_map)
  then have "sorted_wrt (\<lambda>x y. pts x \<le> pts y) (np_sort_pts table)"
    by (rule sorted_wrt_mono_rel [rotated]) auto
  then show ?thesis by (simp add: sorted_map)
qed


lemma Stream_init_timetable:
  assumes "Stream_init st uninitialised = (Inr (), st')"
  shows "nb_frames st' = nb_frames st" "0 \<le> nb_frames st"
    "int (length (timetable st')) = nb_frames st"
    "int (length (fst (iter_packet_list (best_stream_index st) (ffmpeg st)))) \<le> nb_frames st"
    "sorted (map pts (timetable st'))"
proof -
  from assms have n: "\<not> nb_frames st < 0"
    by (auto simp: Stream_init_def split: if_splits)
  then show "0 \<le> nb_frames st" by simp
  obtain r L' where f: "fill_timetable (best_stream_index st) (ffmpeg st) 0
      (map uninitialised [0..<nat (nb_frames st)]) = (r, L')"
    by (cases "fill_timetable (best_stream_index st) (ffmpeg st) 0 (map uninitialised [0..<nat (nb_frames st)])") auto
  with assms n obtain table where r: "r = Inr table"
    and st': "st' = st\<lparr>ffmpeg := L', timetable := np_sort_pts table\<rparr>"
    by (cases r) (auto simp: Stream_init_def)
  from st' show "nb_frames st' = nb_frames st" by simp
  from f r have "fill_timetable (best_stream_index st) (ffmpeg st) 0
      (map uninitialised [0..<nat (nb_frames st)]) = (Inr table, L')" by simp
  from fill_timetable_length [OF this]
  have len: "length table = nat (nb_frames st)"
    "length (fst (iter_packet_list (best_stream_index st) (ffmpeg st))) \<le> nat (nb_frames st)"
    by simp_all
  from len(1) n st' show "int (length (timetable st')) = nb_frames st"
    by (simp add: np_sort_pts_def)
  from len(2) n show "int (length (fst (iter_packet_list (best_stream_index st) (ffmpeg st)))) \<le> nb_frames st"
    by simp
  from st' show "sorted (map pts (timetable st'))"
    by (simp add: np_sort_pts_sorted)
qed

text \<open>
  After \<open>Stream_init\<close> succeeded on a stream whose \<^verbatim>\<open>stream.nb_frames\<close> fits a C \<^verbatim>\<open>int\<close>,
  \<open>total_frames\<close> is the length of the timetable and is \<^verbatim>\<open>stream.nb_frames\<close>, the frame
  count that the container declares; the packets that the pass over the selected
  substream yields are at most that many.
\<close>

lemma total_frames_declared:
  assumes "Stream_init st uninitialised = (Inr (), st')" "nb_frames st < 2 ^ 31"
  shows "fst (total_frames st') = int (length (timetable st'))
    \<and> fst (total_frames st') = nb_frames st
    \<and> int (length (fst (iter_packet_list (best_stream_index st) (ffmpeg st)))) \<le> fst (total_frames st')"
proof -
  from Stream_init_timetable(1,2) [OF assms(1)] assms(2)
  have "fst (total_frames st') = nb_frames st"
    by (simp add: total_frames_def c_int_cast_id)
  with Stream_init_timetable(3,4) [OF assms(1)] show ?thesis by simp
qed

lemma example_short_init:
  "Stream_init example_short stale_entry =
     (Inr (), example_short\<lparr>ffmpeg := (ffmpeg example_short)\<lparr>read_results := []\<rparr>,
        timetable := [\<lparr>pts = 0, dts = 0, flags = 1\<rparr>, \<lparr>pts = 501, dts = - 1, flags = 1\<rparr>]\<rparr>)"
  by (simp add: Stream_init_def example_short_def example_packet_def stale_entry_def np_sort_pts_def
      drain_codec_def AV_PKT_FLAG_KEY_def library_calls loops upt_rec)

lemma example_short_packets:
  "fst (iter_packet_list (best_stream_index example_short) (ffmpeg example_short)) = [example_packet 0 0 1]"
  by (simp add: example_short_def example_packet_def iter_packet_list.simps drain_codec_def
      library_calls loops)

text \<open>
  C8 at a container that declares two frames and gives one packet. \<open>Stream_init\<close>
  succeeds; the pass over the packets yields one packet and records its entry;
  \<open>total_frames\<close> is 2, the length of the timetable, whose other entry is what the
  memory of the array held: \<open>timestamp\<close> answers for the index 1 with 501, the timestamp
  of no packet of the file.
\<close>

theorem total_frames_counts_unwritten:
  "fst (Stream_init example_short stale_entry) = Inr ()
   \<and> fst (iter_packet_list (best_stream_index example_short) (ffmpeg example_short)) = [example_packet 0 0 1]
   \<and> timetable (snd (Stream_init example_short stale_entry)) =
       [\<lparr>pts = 0, dts = 0, flags = 1\<rparr>, \<lparr>pts = 501, dts = - 1, flags = 1\<rparr>]
   \<and> fst (total_frames (snd (Stream_init example_short stale_entry))) = 2
   \<and> fst (timestamp (snd (Stream_init example_short stale_entry)) 1) = Inr 501"
  by (simp add: example_short_init example_short_packets total_frames_def c_int_cast_def
      timestamp_def py_to_c_int_def timetable_at_def)
    (simp add: example_short_def)

subsection \<open>Timestamps\<close>

text \<open>
  The timetable of an opened stream is sorted by \<^verbatim>\<open>pts\<close>, and \<open>timestamp\<close> follows it as
  long as the timestamps fit a C \<^verbatim>\<open>int\<close>.
\<close>

lemma timestamp_monotone_in_range:
  assumes "sorted (map pts (timetable st))" "int (length (timetable st)) = nb_frames st"
    and "\<forall>entry \<in> set (timetable st). - (2 ^ 31) \<le> pts entry \<and> pts entry < 2 ^ 31"
    and "0 \<le> i" "i \<le> j" "j < nb_frames st" "j < 2 ^ 31"
    and "fst (timestamp st i) = Inr a" "fst (timestamp st j) = Inr b"
  shows "a \<le> b"
proof -
  from assms(2,4-7) have i: "nat i < length (timetable st)" and j: "nat j < length (timetable st)"
    and ij: "nat i \<le> nat j" by simp_all
  from assms(2,4-8) i have a: "a = c_int_cast (pts (timetable st ! nat i))"
    by (simp add: timestamp_def py_to_c_int_def timetable_at_def)
  from assms(2,4-7,9) j have b: "b = c_int_cast (pts (timetable st ! nat j))"
    by (simp add: timestamp_def py_to_c_int_def timetable_at_def)
  from assms(1) ij j have "map pts (timetable st) ! nat i \<le> map pts (timetable st) ! nat j"
    by (intro sorted_nth_mono) simp_all
  with i j have "pts (timetable st ! nat i) \<le> pts (timetable st ! nat j)" by simp
  moreover from assms(3) i j have "c_int_cast (pts (timetable st ! nat i)) = pts (timetable st ! nat i)"
    "c_int_cast (pts (timetable st ! nat j)) = pts (timetable st ! nat j)"
    by (simp_all add: c_int_cast_id)
  ultimately show ?thesis using a b by simp
qed

text \<open>
  C2 at a file whose timestamps pass \<open>2 ^ 31\<close>: the stream opens, its timetable is sorted
  by \<^verbatim>\<open>pts\<close> (2147483647, then 2147483648), and \<open>timestamp\<close> returns
  \<^verbatim>\<open><int>self.timetable[frame_index].pts\<close>: 2147483647 for the index 0 and
  \<open>- 2147483648\<close> for the index 1.
\<close>

theorem timestamp_wraps_at_2_31:
  "fst (Stream_init example_long zero_entry) = Inr ()
   \<and> map pts (timetable (snd (Stream_init example_long zero_entry))) = [2147483647, 2147483648]
   \<and> fst (timestamp (snd (Stream_init example_long zero_entry)) 0) = Inr 2147483647
   \<and> fst (timestamp (snd (Stream_init example_long zero_entry)) 1) = Inr (- 2147483648)"
proof -
  have "Stream_init example_long zero_entry =
     (Inr (), example_long\<lparr>ffmpeg := (ffmpeg example_long)\<lparr>read_results := []\<rparr>,
        timetable := [\<lparr>pts = 2147483647, dts = 2147483647, flags = 1\<rparr>,
                      \<lparr>pts = 2147483648, dts = 2147483648, flags = 0\<rparr>]\<rparr>)"
    by (simp add: Stream_init_def example_long_def example_packet_def zero_entry_def np_sort_pts_def
        drain_codec_def AV_PKT_FLAG_KEY_def library_calls loops upt_rec)
  then show ?thesis
    by (simp add: timestamp_def py_to_c_int_def timetable_at_def c_int_cast_def example_long_def)
qed

end
